theory Spec2Isabelle
  imports Main "HOL-Library.Word"
begin

section \<open>Python values used by the SM10 driver\<close>

text \<open>
  The driver (\<^verbatim>\<open>LandNSM10.py\<close>) is one Python class around a pyserial port. Bytes
  objects are lists of 8-bit words, Python integers are \<open>int\<close>, strings are \<open>string\<close>.
  Every exception that a statement of the driver can raise is a value of \<open>error\<close>;
  a method returns its result (or the exception) together with the driver afterwards.
  Exceptions that pyserial itself raises on a port that is open (a cable pulled during a
  write) and the wall-clock sleep between write and read are outside the model.
\<close>

type_synonym byte = "8 word"

datatype error =
    AttributeError
  | BinasciiError
  | IndexError
  | OverflowError
  | StructError
  | TypeError
  | UnboundLocalError
  | ValueError

text \<open>
  A Python \<^verbatim>\<open>float\<close> is a double: the finite value \<open>(-1)^s * m * 2^e\<close> as
  \<open>Fin s m e\<close>, an infinity with its sign, or a NaN with its sign bit and the 52 bits
  of its fraction field. The position given to \<^verbatim>\<open>approach_position\<close> is taken to be a
  float; an integer position is turned into one by \<^verbatim>\<open>struct.pack\<close>.
\<close>

datatype pyfloat = Fin bool nat int | Inf bool | NaN bool nat

text \<open>Unary minus changes the sign bit, of a NaN as of any other float.\<close>

fun neg :: "pyfloat \<Rightarrow> pyfloat" where
  "neg (Fin s m e) = Fin (\<not> s) m e"
| "neg (Inf s) = Inf (\<not> s)"
| "neg (NaN s f) = NaN (\<not> s) f"

subsection \<open>\<^verbatim>\<open>'%02x' % n\<close>\<close>

definition hex_digit :: "nat \<Rightarrow> char" where
  "hex_digit d = ''0123456789abcdef'' ! d"

function to_hex :: "nat \<Rightarrow> string" where
  "to_hex n = (if n < 16 then [hex_digit n] else to_hex (n div 16) @ [hex_digit (n mod 16)])"
  by pat_completeness auto
termination
  by (relation "measure (\<lambda>n. n)") auto

declare to_hex.simps [simp del]

text \<open>
  Lower-case hexadecimal, padded with zeros to two characters; a longer number is
  printed in full, and the sign of a negative number counts towards the width.
\<close>

definition format_02x :: "int \<Rightarrow> string" where
  "format_02x n =
     (if n < 0 then CHR ''-'' # to_hex (nat (- n))
      else (let s = to_hex (nat n) in replicate (2 - length s) CHR ''0'' @ s))"

subsection \<open>\<^verbatim>\<open>binascii.unhexlify\<close> and \<^verbatim>\<open>binascii.hexlify\<close>\<close>

definition hex_value :: "char \<Rightarrow> nat option" where
  "hex_value c =
     (let k = (of_char c :: nat) in
      if 48 \<le> k \<and> k \<le> 57 then Some (k - 48)
      else if 97 \<le> k \<and> k \<le> 102 then Some (k - 87)
      else if 65 \<le> k \<and> k \<le> 70 then Some (k - 55)
      else None)"

text \<open>
  \<^verbatim>\<open>unhexlify\<close> first takes its string argument as ASCII and raises \<^verbatim>\<open>ValueError\<close>
  when a character is not; then it raises \<^verbatim>\<open>binascii.Error\<close> on a string of odd length
  and on a character that is no hexadecimal digit.
\<close>

definition is_ascii :: "char \<Rightarrow> bool" where
  "is_ascii c = ((of_char c :: nat) < 128)"

fun unhexlify_ascii :: "string \<Rightarrow> error + byte list" where
  "unhexlify_ascii [] = Inr []"
| "unhexlify_ascii [c] = Inl BinasciiError"
| "unhexlify_ascii (a # b # cs) =
     (case (hex_value a, hex_value b) of
        (Some h, Some l) \<Rightarrow>
          (case unhexlify_ascii cs of
             Inl e \<Rightarrow> Inl e
           | Inr bs \<Rightarrow> Inr (of_nat (16 * h + l) # bs))
      | _ \<Rightarrow> Inl BinasciiError)"

definition unhexlify :: "string \<Rightarrow> error + byte list" where
  "unhexlify s = (if list_all is_ascii s then unhexlify_ascii s else Inl ValueError)"

definition hexlify :: "byte list \<Rightarrow> string" where
  "hexlify bs = concat (map (\<lambda>b. [hex_digit (unat b div 16), hex_digit (unat b mod 16)]) bs)"

text \<open>
  \<^verbatim>\<open>int(s, 16)\<close> on a string of hexadecimal digits, the only strings the driver
  passes to it; the empty string and any other character raise \<^verbatim>\<open>ValueError\<close>.
\<close>

fun hex_digits_value :: "int \<Rightarrow> string \<Rightarrow> int option" where
  "hex_digits_value a [] = Some a"
| "hex_digits_value a (c # cs) =
     (case hex_value c of
        None \<Rightarrow> None
      | Some v \<Rightarrow> hex_digits_value (16 * a + int v) cs)"

definition int_base16 :: "string \<Rightarrow> error + int" where
  "int_base16 s =
     (if s = [] then Inl ValueError
      else case hex_digits_value 0 s of None \<Rightarrow> Inl ValueError | Some v \<Rightarrow> Inr v)"

text \<open>The slice \<^verbatim>\<open>xs[i:j]\<close> for \<open>0 \<le> i \<le> j\<close>; it is shorter when \<open>xs\<close> is.\<close>

definition py_slice :: "nat \<Rightarrow> nat \<Rightarrow> 'a list \<Rightarrow> 'a list" where
  "py_slice i j xs = take (j - i) (drop i xs)"

subsection \<open>\<^verbatim>\<open>struct.pack('>f', x)\<close> and \<^verbatim>\<open>struct.unpack('f', b)\<close>\<close>

text \<open>
  \<^verbatim>\<open>struct.pack\<close> with format \<^verbatim>\<open>f\<close> converts the float to IEEE-754 single precision,
  rounding to nearest, ties to even, and raises \<^verbatim>\<open>OverflowError\<close> when a finite float
  becomes an infinity. \<open>float32_bits\<close> is the 32-bit pattern of the result: sign,
  8 bits of exponent, 23 bits of fraction. A NaN keeps its sign and the upper 22 bits of
  its payload and comes out quiet (bit 22 of the pattern set), as the conversion of the
  processor makes it.
\<close>

function bit_length :: "nat \<Rightarrow> nat" where
  "bit_length n = (if n = 0 then 0 else Suc (bit_length (n div 2)))"
  by pat_completeness auto
termination
  by (relation "measure (\<lambda>n. n)") auto

declare bit_length.simps [simp del]

text \<open>\<open>round_shift m k\<close> is \<open>m / 2^k\<close> rounded to the nearest integer, ties to even.\<close>

definition round_shift :: "nat \<Rightarrow> int \<Rightarrow> nat" where
  "round_shift m k =
     (if k \<le> 0 then m * 2 ^ nat (- k)
      else (let d = 2 ^ nat k; t = m div d; r = m mod d
            in if d < 2 * r \<or> (2 * r = d \<and> odd t) then t + 1 else t))"

definition sign_bit :: "bool \<Rightarrow> nat" where
  "sign_bit s = (if s then 2 ^ 31 else 0)"

fun float32_bits :: "pyfloat \<Rightarrow> error + 32 word" where
  "float32_bits (NaN s f) = Inr (of_nat (sign_bit s + 0x7fc00000 + f div 2 ^ 29 mod 2 ^ 22))"
| "float32_bits (Inf s) = Inr (of_nat (sign_bit s + 0x7f800000))"
| "float32_bits (Fin s m e) =
     (if m = 0 then Inr (of_nat (sign_bit s))
      else
        (let q0 = max (e + int (bit_length m) - 24) (- 149);
             M0 = round_shift m (q0 - e);
             q = (if M0 = 2 ^ 24 then q0 + 1 else q0);
             M = (if M0 = 2 ^ 24 then 2 ^ 23 else M0)
         in if 104 < q then Inl OverflowError
            else if M < 2 ^ 23 then Inr (of_nat (sign_bit s + M))
            else Inr (of_nat (sign_bit s + nat (q + 150) * 2 ^ 23 + (M - 2 ^ 23)))))"

text \<open>
  The float that a 32-bit pattern stands for, as \<^verbatim>\<open>struct.unpack\<close> returns it. The
  pattern of a NaN gives the quiet NaN of the same sign and payload, also when the pattern
  is that of a signalling NaN.
\<close>

definition float32_value :: "32 word \<Rightarrow> pyfloat" where
  "float32_value w =
     (let n = unat w; s = (2 ^ 31 \<le> n); E = n div 2 ^ 23 mod 256; F = n mod 2 ^ 23
      in if E = 255 then (if F = 0 then Inf s else NaN s ((2 ^ 22 + F mod 2 ^ 22) * 2 ^ 29))
         else if E = 0 then Fin s F (- 149)
         else Fin s (2 ^ 23 + F) (int E - 150))"

definition be_bytes :: "32 word \<Rightarrow> byte list" where
  "be_bytes w =
     (let n = unat w
      in [of_nat (n div 2 ^ 24), of_nat (n div 2 ^ 16 mod 256),
          of_nat (n div 2 ^ 8 mod 256), of_nat (n mod 256)])"

definition word_of_be :: "byte \<Rightarrow> byte \<Rightarrow> byte \<Rightarrow> byte \<Rightarrow> 32 word" where
  "word_of_be a b c d = of_nat (unat a * 2 ^ 24 + unat b * 2 ^ 16 + unat c * 2 ^ 8 + unat d)"

definition struct_pack_be_f :: "pyfloat \<Rightarrow> error + byte list" where
  "struct_pack_be_f x = (case float32_bits x of Inl e \<Rightarrow> Inl e | Inr w \<Rightarrow> Inr (be_bytes w))"

text \<open>
  The format \<^verbatim>\<open>'f'\<close> without a prefix reads the bytes in the byte order of the machine
  that runs the driver, and raises \<^verbatim>\<open>struct.error\<close> unless it gets exactly 4 bytes.
\<close>

datatype byteorder = LittleEndian | BigEndian

definition struct_unpack_f :: "byteorder \<Rightarrow> byte list \<Rightarrow> error + pyfloat" where
  "struct_unpack_f native bs =
     (case (if native = LittleEndian then rev bs else bs) of
        [a, b, c, d] \<Rightarrow> Inr (float32_value (word_of_be a b c d))
      | _ \<Rightarrow> Inl StructError)"

subsection \<open>The serial port\<close>

text \<open>
  The port keeps what was written to it; \<open>incoming\<close> are the bytes that the device
  delivers before the read timeout expires. \<^verbatim>\<open>read(n)\<close> returns at most \<open>n\<close> of them.
\<close>

record serial_port =
  written :: "byte list"
  incoming :: "byte list"

definition ser_write :: "serial_port \<Rightarrow> byte list \<Rightarrow> serial_port" where
  "ser_write p bs = p\<lparr>written := written p @ bs\<rparr>"

definition ser_read :: "serial_port \<Rightarrow> nat \<Rightarrow> byte list \<times> serial_port" where
  "ser_read p n = (take n (incoming p), p\<lparr>incoming := drop n (incoming p)\<rparr>)"

section \<open>The driver object\<close>

text \<open>
  A log message is the sequence of its pieces: literal text, an integer printed with
  \<^verbatim>\<open>str\<close> or \<^verbatim>\<open>format\<close>, a float printed with four decimals. The timestamp in
  front of it is not modelled.
\<close>

datatype logpart = LText string | LInt int | LFloat pyfloat

type_synonym logmsg = "logpart list"

text \<open>
  \<open>ser\<close> is \<open>None\<close> when the port could not be opened. \<open>console\<close> is what the
  object has printed. \<open>logging\<close> is assigned by the constructor only when
  \<open>verbose\<close> is 2 or 3, and \<^verbatim>\<open>write_log\<close> reads it only then; here it is \<open>False\<close>
  otherwise.
\<close>

record driver =
  verbose :: int
  serial_debug :: bool
  logging :: bool
  log_file :: "logmsg list option"
  console :: "logmsg list"
  ser :: "serial_port option"
  connected :: bool

definition SYN :: string where
  "SYN = ''16''"

definition write_log :: "driver \<Rightarrow> logmsg \<Rightarrow> driver" where
  "write_log d msg =
     (let d1 = (if verbose d = 1 \<or> verbose d = 3 then d\<lparr>console := console d @ [msg]\<rparr> else d)
      in if (verbose d1 = 2 \<or> verbose d1 = 3) \<and> logging d1
         then d1\<lparr>log_file := map_option (\<lambda>l. l @ [msg]) (log_file d1)\<rparr>
         else d1)"

text \<open>
  The constructor. \<open>log_opens\<close> says whether the log file can be opened, \<open>port\<close> is
  the port that \<^verbatim>\<open>serial.Serial\<close> returns, \<open>None\<close> when it raises. Both failures are
  caught by the constructor.
\<close>

definition init :: "int \<Rightarrow> bool \<Rightarrow> bool \<Rightarrow> serial_port option \<Rightarrow> driver" where
  "init verbose_arg serial_debug_arg log_opens port =
     (let d0 = \<lparr>verbose = verbose_arg, serial_debug = serial_debug_arg, logging = False,
                log_file = None, console = [], ser = None, connected = False\<rparr>;
          d1 = (if verbose_arg = 2 \<or> verbose_arg = 3 then
                  (if log_opens then d0\<lparr>log_file := Some [], logging := True\<rparr>
                   else write_log (d0\<lparr>log_file := None, logging := False\<rparr>)
                          [LText ''Unable to open or create log file''])
                else d0)
      in case port of
           Some p \<Rightarrow>
             write_log (d1\<lparr>ser := Some p, connected := True\<rparr>)
               [LText ''SM10 serial connection established'']
         | None \<Rightarrow>
             write_log (d1\<lparr>ser := None, connected := False\<rparr>)
               [LText ''SM10 serial connection failed''])"

subsection \<open>\<^verbatim>\<open>send_command\<close>\<close>

text \<open>
  The text of the serial command: \<^verbatim>\<open>SYN + cmd_id + '%02x' % n_bytes\<close>, then the loop
  over \<^verbatim>\<open>var_bytes\<close>, then the two CRC bytes, which are always zero.
\<close>

definition char_command :: "string \<Rightarrow> int \<Rightarrow> int list \<Rightarrow> string" where
  "char_command cmd_id n_bytes var_bytes =
     foldl (\<lambda>s individual_bytes. s @ format_02x individual_bytes)
       (SYN @ cmd_id @ format_02x n_bytes) var_bytes
     @ format_02x 0 @ format_02x 0"

text \<open>
  The result is \<open>None\<close> when the declared count differs from the length of
  \<^verbatim>\<open>var_bytes\<close>, else the bytes read. \<^verbatim>\<open>unhexlify\<close> runs before the port is
  touched; on a driver without a port \<^verbatim>\<open>self.ser.write\<close> raises
  \<^verbatim>\<open>AttributeError\<close>.
\<close>

definition send_command ::
  "driver \<Rightarrow> string \<Rightarrow> int \<Rightarrow> int list \<Rightarrow> nat \<Rightarrow> (error + byte list option) \<times> driver" where
  "send_command d cmd_id n_bytes var_bytes n_ret_bytes =
     (if n_bytes \<noteq> int (length var_bytes) then
        (Inr None,
         if serial_debug d then
           write_log d [LText (CHR 0x09 # ''(Error in serial command: attempting to read ''),
                        LInt n_bytes, LText '' byte(s) but '', LInt (int (length var_bytes)),
                        LText '' is(were) sent)'']
         else d)
      else
        (case unhexlify (char_command cmd_id n_bytes var_bytes) of
           Inl e \<Rightarrow> (Inl e, d)
         | Inr bin_command \<Rightarrow>
             (case ser d of
                None \<Rightarrow> (Inl AttributeError, d)
              | Some port \<Rightarrow>
                  (let d1 = d\<lparr>ser := Some (ser_write port bin_command)\<rparr>;
                       d2 = (if serial_debug d1 then
                               write_log d1 [LText (CHR 0x09 # ''(Sending: ''),
                                             LText (char_command cmd_id n_bytes var_bytes), LText '')'']
                             else d1)
                   in case ser d2 of
                        None \<Rightarrow> (Inl AttributeError, d2)
                      | Some port2 \<Rightarrow>
                          (let (ans, port3) = ser_read port2 n_ret_bytes
                           in (Inr (Some ans), d2\<lparr>ser := Some port3\<rparr>))))))"

subsection \<open>\<^verbatim>\<open>float_to_dec_bytes\<close>\<close>

definition float_to_dec_bytes :: "pyfloat \<Rightarrow> error + int list" where
  "float_to_dec_bytes number =
     (case struct_pack_be_f number of
        Inl e \<Rightarrow> Inl e
      | Inr packed \<Rightarrow>
          (let hex_rep = hexlify packed
           in case (int_base16 (drop 6 hex_rep), int_base16 (py_slice 4 6 hex_rep),
                    int_base16 (py_slice 2 4 hex_rep), int_base16 (take 2 hex_rep)) of
                (Inr b0, Inr b1, Inr b2, Inr b3) \<Rightarrow> Inr [b0, b1, b2, b3]
              | _ \<Rightarrow> Inl ValueError))"

subsection \<open>The commands\<close>

text \<open>
  \<open>native\<close> is the byte order of the machine. A \<open>None\<close> from \<^verbatim>\<open>send_command\<close>
  cannot be subscripted: \<^verbatim>\<open>TypeError\<close>.
\<close>

definition position_inquiry ::
  "byteorder \<Rightarrow> driver \<Rightarrow> int \<Rightarrow> (error + pyfloat) \<times> driver" where
  "position_inquiry native d axis =
     (let d1 = write_log d [LText ''Query axis '', LInt axis, LText '' position ...'']
      in case send_command d1 ''0101'' 1 [axis] 10 of
           (Inl e, d2) \<Rightarrow> (Inl e, d2)
         | (Inr None, d2) \<Rightarrow> (Inl TypeError, d2)
         | (Inr (Some ans), d2) \<Rightarrow>
             (case struct_unpack_f native (py_slice 4 8 ans) of
                Inl e \<Rightarrow> (Inl e, d2)
              | Inr position \<Rightarrow>
                  (Inr position,
                   write_log d2 [LText ''Axis '', LInt axis, LText '' position = '', LFloat position])))"

text \<open>
  The chain of \<^verbatim>\<open>if\<close>/\<^verbatim>\<open>elif\<close> has no \<^verbatim>\<open>else\<close>: were no branch taken,
  \<^verbatim>\<open>cmd_id\<close> would be unbound where it is used.
\<close>

definition approach_cmd :: "bool \<Rightarrow> bool \<Rightarrow> (string \<times> string) option" where
  "approach_cmd absolute slow =
     (if absolute \<and> \<not> slow then Some (''0048'', ''Moving fast to absolute position: '')
      else if absolute \<and> slow then Some (''0049'', ''Moving slow to absolute position: '')
      else if \<not> absolute \<and> \<not> slow then Some (''004a'', ''Moving fast to relative position: '')
      else if \<not> absolute \<and> slow then Some (''004b'', ''Moving slow to relative position: '')
      else None)"

definition approach_position ::
  "driver \<Rightarrow> int \<Rightarrow> pyfloat \<Rightarrow> bool \<Rightarrow> bool \<Rightarrow> bool \<Rightarrow> (error + byte list option) \<times> driver" where
  "approach_position d axis position absolute slow reverse =
     (let branch = approach_cmd absolute slow;
          msg = [LText ''(axis: '', LInt axis, LText '') ''] @ (case branch of None \<Rightarrow> [] | Some (_, m) \<Rightarrow> [LText m]);
          n_bytes = 5;
          n_ret_bytes = 5;
          position1 = (if reverse then neg position else position)
      in case float_to_dec_bytes position1 of
           Inl e \<Rightarrow> (Inl e, d)
         | Inr dec \<Rightarrow>
             (let var_bytes = [axis] @ dec;
                  d1 = write_log d (msg @ [LFloat position1, LText '' um''])
              in case branch of
                   None \<Rightarrow> (Inl UnboundLocalError, d1)
                 | Some (cmd_id, _) \<Rightarrow> send_command d1 cmd_id n_bytes var_bytes n_ret_bytes))"

text \<open>\<^verbatim>\<open>ans[4]\<close> raises \<^verbatim>\<open>IndexError\<close> on a reply of fewer than 5 bytes.\<close>

definition axis_status :: "driver \<Rightarrow> int \<Rightarrow> (error + byte) \<times> driver" where
  "axis_status d axis =
     (case send_command d ''011e'' 1 [axis] 7 of
        (Inl e, d1) \<Rightarrow> (Inl e, d1)
      | (Inr None, d1) \<Rightarrow> (Inl TypeError, d1)
      | (Inr (Some ans), d1) \<Rightarrow>
          (if 4 < length ans
           then (Inr (ans ! 4), write_log d1 [LText ''Axis '', LInt axis, LText '' status: ''])
           else (Inl IndexError, d1)))"

definition axis_switch :: "driver \<Rightarrow> int \<Rightarrow> bool \<Rightarrow> (error + byte list option) \<times> driver" where
  "axis_switch d axis switch_on =
     (let (msg, cmd_id) =
            (if \<not> switch_on then ([LText ''Axis '', LInt axis, LText '' switched OFF''], ''0034'')
             else ([LText ''Axis '', LInt axis, LText '' switched ON''], ''0035''))
      in case send_command d cmd_id 1 [axis] 5 of
           (Inl e, d1) \<Rightarrow> (Inl e, d1)
         | (Inr ans, d1) \<Rightarrow> (Inr ans, write_log d1 msg))"

section \<open>The frame as the specification words it\<close>

text \<open>
  The wire layout of the specification: the sync byte \<open>0x16\<close>, the two bytes of the
  command id, the number of parameter bytes in one byte, the parameter bytes, and two CRC
  bytes that are zero. The theorems below compare what \<^verbatim>\<open>send_command\<close> writes with it.
\<close>

definition spec_frame :: "byte list \<Rightarrow> int list \<Rightarrow> byte list" where
  "spec_frame c p = [0x16] @ c @ [of_nat (length p)] @ map word_of_int p @ [0x00, 0x00]"

section \<open>Hexadecimal text and bytes\<close>

lemma lt16_cases:
  "(d::nat) < 16 \<Longrightarrow> d = 0 \<or> d = 1 \<or> d = 2 \<or> d = 3 \<or> d = 4 \<or> d = 5 \<or> d = 6 \<or> d = 7 \<or> d = 8
     \<or> d = 9 \<or> d = 10 \<or> d = 11 \<or> d = 12 \<or> d = 13 \<or> d = 14 \<or> d = 15"
  by presburger

lemma hex_value_hex_digit: "d < 16 \<Longrightarrow> hex_value (hex_digit d) = Some d"
  by (drule lt16_cases) (elim disjE; simp add: hex_value_def hex_digit_def)

lemma hex_value_ascii: "hex_value c = Some v \<Longrightarrow> is_ascii c"
  by (auto simp: hex_value_def is_ascii_def Let_def split: if_splits)

lemma unhexlify_Nil [simp]: "unhexlify [] = Inr []"
  by (simp add: unhexlify_def)

lemma unhexlify_single [simp]:
  "unhexlify [c] = (if is_ascii c then Inl BinasciiError else Inl ValueError)"
  by (simp add: unhexlify_def)

lemma unhexlify_pair [simp]:
  "unhexlify (a # b # cs) =
     (case (hex_value a, hex_value b) of
        (Some h, Some l) \<Rightarrow>
          (case unhexlify cs of
             Inl e \<Rightarrow> Inl e
           | Inr bs \<Rightarrow> Inr (of_nat (16 * h + l) # bs))
      | _ \<Rightarrow> (if list_all is_ascii (a # b # cs) then Inl BinasciiError else Inl ValueError))"
  by (auto simp: unhexlify_def hex_value_ascii split: option.splits sum.splits)

lemma unhexlify_Inr_ascii: "unhexlify s = Inr bs \<Longrightarrow> list_all is_ascii s"
  by (simp add: unhexlify_def split: if_splits)

lemma to_hex_small: "n < 16 \<Longrightarrow> to_hex n = [hex_digit n]"
  by (simp add: to_hex.simps)

lemma to_hex_digits: "c \<in> set (to_hex n) \<Longrightarrow> hex_value c \<noteq> None"
proof (induction n arbitrary: c rule: to_hex.induct)
  case (1 n)
  show ?case
  proof (cases "n < 16")
    case True
    then show ?thesis using "1.prems" by (simp add: to_hex_small hex_value_hex_digit)
  next
    case False
    then have "to_hex n = to_hex (n div 16) @ [hex_digit (n mod 16)]"
      by (subst to_hex.simps) simp
    then have "c \<in> set (to_hex (n div 16)) \<or> c = hex_digit (n mod 16)"
      using "1.prems" by auto
    then show ?thesis
      using "1.IH" [OF False] by (auto simp: hex_value_hex_digit)
  qed
qed

lemma format_02x_ascii: "list_all is_ascii (format_02x b)"
proof -
  have "is_ascii c" if "c \<in> set (format_02x b)" for c
  proof -
    have "c = CHR ''-'' \<or> c = CHR ''0'' \<or> (\<exists>n. c \<in> set (to_hex n))"
      using that by (auto simp: format_02x_def Let_def split: if_splits)
    moreover have "is_ascii CHR ''-''" "is_ascii CHR ''0''" by (simp_all add: is_ascii_def)
    moreover have "is_ascii c" if "c \<in> set (to_hex n)" for n
      using to_hex_digits [OF that] hex_value_ascii by auto
    ultimately show ?thesis by blast
  qed
  then show ?thesis by (simp add: list_all_iff)
qed

lemma to_hex_two: "16 \<le> n \<Longrightarrow> n < 256 \<Longrightarrow> to_hex n = [hex_digit (n div 16), hex_digit (n mod 16)]"
  by (subst to_hex.simps) (simp add: to_hex_small)

lemma format_02x_byte:
  assumes "0 \<le> b" "b \<le> 255"
  shows "format_02x b = [hex_digit (nat b div 16), hex_digit (nat b mod 16)]"
proof (cases "nat b < 16")
  case True
  then have "to_hex (nat b) = [hex_digit (nat b)]" by (rule to_hex_small)
  moreover have "nat b div 16 = 0" "nat b mod 16 = nat b" using True by simp_all
  moreover have "hex_digit 0 = CHR ''0''" by (simp add: hex_digit_def)
  ultimately show ?thesis using assms by (simp add: format_02x_def)
next
  case False
  then have "to_hex (nat b) = [hex_digit (nat b div 16), hex_digit (nat b mod 16)]"
    using assms by (intro to_hex_two) auto
  then show ?thesis using assms by (simp add: format_02x_def)
qed

lemma byte_of_digits:
  assumes "0 \<le> b"
  shows "(of_nat (16 * (nat b div 16) + nat b mod 16) :: byte) = word_of_int b"
proof -
  have "16 * (nat b div 16) + nat b mod 16 = nat b" by simp
  then show ?thesis using assms by (simp only: word_of_int_nat)
qed

lemma unhexlify_format_02x:
  assumes "0 \<le> b" "b \<le> 255"
  shows "unhexlify (format_02x b @ rest) =
    (case unhexlify rest of Inl e \<Rightarrow> Inl e | Inr bs \<Rightarrow> Inr (word_of_int b # bs))"
proof -
  have "nat b div 16 < 16" "nat b mod 16 < 16" using assms by auto
  then show ?thesis using assms
    by (simp only: format_02x_byte append.simps unhexlify_pair hex_value_hex_digit
        byte_of_digits option.case prod.case)
qed

lemma format_02x_zero: "format_02x 0 = ''00''"
  by (simp add: format_02x_def to_hex_small hex_digit_def)

lemma foldl_format_02x:
  "foldl (\<lambda>s b. s @ format_02x b) s0 xs = s0 @ concat (map format_02x xs)"
  by (induction xs arbitrary: s0) simp_all

lemma char_command_concat:
  "char_command cmd_id n p =
     ''16'' @ cmd_id @ format_02x n @ concat (map format_02x p) @ ''0000''"
  by (simp add: char_command_def foldl_format_02x SYN_def format_02x_zero)

lemma unhexlify_append:
  "unhexlify a = Inr xs \<Longrightarrow>
   unhexlify (a @ b) = (case unhexlify b of Inl e \<Rightarrow> Inl e | Inr ys \<Rightarrow> Inr (xs @ ys))"
proof (induction a arbitrary: xs rule: unhexlify_ascii.induct)
  case 1
  then show ?case by (simp split: sum.splits)
next
  case (2 c)
  then show ?case by (simp split: if_splits)
next
  case (3 a b cs)
  then show ?case
    by (auto split: option.splits sum.splits if_splits)
qed

lemma unhexlify_params:
  "\<forall>b\<in>set p. 0 \<le> b \<and> b \<le> 255 \<Longrightarrow>
   unhexlify (concat (map format_02x p) @ rest) =
     (case unhexlify rest of Inl e \<Rightarrow> Inl e | Inr bs \<Rightarrow> Inr (map word_of_int p @ bs))"
proof (induction p)
  case Nil
  then show ?case by (simp split: sum.splits)
next
  case (Cons b p)
  then show ?case by (simp add: unhexlify_format_02x split: sum.splits)
qed

lemma unhexlify_ascii_odd: "odd (length s) \<Longrightarrow> unhexlify_ascii s = Inl BinasciiError"
  by (induction s rule: unhexlify_ascii.induct) (auto split: option.splits sum.splits)

lemma unhexlify_odd:
  "odd (length s) \<Longrightarrow> list_all is_ascii s \<Longrightarrow> unhexlify s = Inl BinasciiError"
  by (simp add: unhexlify_def unhexlify_ascii_odd)

lemma unhexlify_length: "unhexlify s = Inr bs \<Longrightarrow> length s = 2 * length bs"
  by (induction s arbitrary: bs rule: unhexlify_ascii.induct)
    (auto split: option.splits sum.splits if_splits)

lemma unhexlify_ascii_digits:
  "\<forall>c\<in>set s. hex_value c \<noteq> None \<Longrightarrow> even (length s) \<Longrightarrow> \<exists>bs. unhexlify_ascii s = Inr bs"
  by (induction s rule: unhexlify_ascii.induct) (auto split: option.splits sum.splits)

lemma unhexlify_digits:
  assumes "\<forall>c\<in>set s. hex_value c \<noteq> None" and "even (length s)"
  shows "\<exists>bs. unhexlify s = Inr bs"
proof -
  have "list_all is_ascii s" using assms(1) hex_value_ascii by (auto simp: list_all_iff)
  then show ?thesis using unhexlify_ascii_digits [OF assms] by (simp add: unhexlify_def)
qed

lemma unhexlify_ascii_not_digit:
  "c \<in> set s \<Longrightarrow> hex_value c = None \<Longrightarrow> unhexlify_ascii s = Inl BinasciiError"
  by (induction s rule: unhexlify_ascii.induct) (auto split: option.splits sum.splits)

lemma unhexlify_ascii_error: "unhexlify_ascii s = Inl e \<Longrightarrow> e = BinasciiError"
  by (induction s arbitrary: e rule: unhexlify_ascii.induct)
    (auto split: option.splits sum.splits)

lemma unhexlify_ascii_Inr:
  "unhexlify_ascii s = Inr bs \<Longrightarrow> even (length s) \<and> (\<forall>c\<in>set s. hex_value c \<noteq> None)"
  by (induction s arbitrary: bs rule: unhexlify_ascii.induct)
    (auto split: option.splits sum.splits)

text \<open>
  The three outcomes of \<^verbatim>\<open>unhexlify\<close>: \<^verbatim>\<open>ValueError\<close> for a character that is not
  ASCII, \<^verbatim>\<open>binascii.Error\<close> for an odd length or a character that is no hexadecimal
  digit, and the bytes otherwise.
\<close>

lemma unhexlify_cases:
  "unhexlify s =
     (if \<not> list_all is_ascii s then Inl ValueError
      else if odd (length s) \<or> \<not> list_all (\<lambda>c. hex_value c \<noteq> None) s then Inl BinasciiError
      else unhexlify_ascii s)
   \<and> (list_all is_ascii s \<and> even (length s) \<and> list_all (\<lambda>c. hex_value c \<noteq> None) s
        \<longrightarrow> (\<exists>bs. unhexlify_ascii s = Inr bs))"
proof -
  have "unhexlify_ascii s = Inl BinasciiError"
    if "odd (length s) \<or> \<not> list_all (\<lambda>c. hex_value c \<noteq> None) s"
    using that unhexlify_ascii_odd unhexlify_ascii_not_digit
    by (auto simp: list_all_iff)
  moreover have "\<exists>bs. unhexlify_ascii s = Inr bs"
    if "list_all is_ascii s" "even (length s)" "list_all (\<lambda>c. hex_value c \<noteq> None) s"
    using unhexlify_ascii_digits [of s] that by (auto simp: list_all_iff)
  ultimately show ?thesis by (auto simp: unhexlify_def)
qed

lemma unhexlify_error: "unhexlify s = Inl e \<Longrightarrow> e = BinasciiError \<or> e = ValueError"
  by (auto simp: unhexlify_def dest: unhexlify_ascii_error split: if_splits)

lemma concat_format_02x_ascii: "list_all is_ascii (concat (map format_02x p))"
  by (induction p) (simp_all add: format_02x_ascii)

lemma char_command_ascii:
  assumes "list_all is_ascii cmd_id"
  shows "list_all is_ascii (char_command cmd_id n p)"
proof -
  have "list_all is_ascii ''16''" "list_all is_ascii ''0000''" by (simp_all add: is_ascii_def)
  then show ?thesis
    using assms by (simp add: char_command_concat format_02x_ascii concat_format_02x_ascii)
qed

lemma ascii_0101: "list_all is_ascii ''0101''"
  by (simp add: is_ascii_def)

lemma ser_write_log [simp]: "ser (write_log d msg) = ser d"
  by (simp add: write_log_def Let_def)

lemma unhexlify_zero_crc: "unhexlify ''0000'' = Inr [0, 0]"
  by (simp add: hex_value_def)

lemma unhexlify_syn: "unhexlify ''16'' = Inr [0x16]"
  by (simp add: hex_value_def)

lemma unhexlify_char_command:
  assumes c: "unhexlify cmd_id = Inr c"
    and len: "length p \<le> 255"
    and range: "\<forall>b\<in>set p. 0 \<le> b \<and> b \<le> 255"
  shows "unhexlify (char_command cmd_id (int (length p)) p) = Inr (spec_frame c p)"
proof -
  have n: "0 \<le> int (length p)" "int (length p) \<le> 255" using len by simp_all
  have tail: "unhexlify (concat (map format_02x p) @ ''0000'') = Inr (map word_of_int p @ [0, 0])"
    using unhexlify_params [OF range, of "''0000''"] by (simp only: unhexlify_zero_crc sum.case)
  have count: "unhexlify (format_02x (int (length p)) @ concat (map format_02x p) @ ''0000'')
      = Inr (of_nat (length p) # map word_of_int p @ [0, 0])"
    using unhexlify_format_02x [OF n] by (simp only: tail sum.case of_int_of_nat_eq) 
  have cmd: "unhexlify (cmd_id @ format_02x (int (length p)) @ concat (map format_02x p) @ ''0000'')
      = Inr (c @ of_nat (length p) # map word_of_int p @ [0, 0])"
    using unhexlify_append [OF c] by (simp only: count sum.case)
  have "unhexlify (''16'' @ cmd_id @ format_02x (int (length p)) @ concat (map format_02x p) @ ''0000'')
      = Inr ([0x16] @ c @ of_nat (length p) # map word_of_int p @ [0, 0])"
    using unhexlify_append [OF unhexlify_syn] by (simp only: cmd sum.case)
  then show ?thesis by (simp only: char_command_concat spec_frame_def append.simps)
qed

lemma send_command_connected:
  assumes "ser d = Some port" and "unhexlify (char_command cmd_id n p) = Inr frame"
    and "n = int (length p)"
  shows "fst (send_command d cmd_id n p r) = Inr (Some (take r (incoming port)))"
    and "ser (snd (send_command d cmd_id n p r))
         = Some \<lparr>written = written port @ frame, incoming = drop r (incoming port)\<rparr>"
  using assms by (simp_all add: send_command_def Let_def ser_write_def ser_read_def)

lemma spec_frame_length: "length c = 2 \<Longrightarrow> length (spec_frame c p) = 6 + length p"
  by (simp add: spec_frame_def)

lemma spec_frame_count: "length c = 2 \<Longrightarrow> spec_frame c p ! 3 = of_nat (length p)"
  by (simp add: spec_frame_def nth_append)

lemma spec_frame_crc:
  assumes "length c = 2"
  shows "drop (4 + length p) (spec_frame c p) = [0, 0]"
proof -
  let ?head = "[0x16] @ c @ [of_nat (length p)] @ map word_of_int p"
  have "spec_frame c p = ?head @ [0, 0]" by (simp add: spec_frame_def)
  moreover have "length ?head = 4 + length p" using assms by simp
  ultimately show ?thesis by (metis append_eq_conv_conj)
qed

lemma unat_count: "length p \<le> 255 \<Longrightarrow> unat (of_nat (length p) :: byte) = length p"
  by (simp add: unat_of_nat)

lemma init_connected:
  "ser (init v sd lo (Some port)) = Some port"
  by (simp add: init_def Let_def)

lemma unhexlify_0101: "unhexlify ''0101'' = Inr [1, 1]"
  by (simp add: hex_value_def)

lemma format_02x_256: "format_02x 256 = ''100''"
  by (simp add: format_02x_def to_hex.simps hex_digit_def)

lemma char_command_length:
  "length (char_command cmd_id n p) =
     6 + length cmd_id + length (format_02x n) + length (concat (map format_02x p))"
  by (simp add: char_command_concat)

section \<open>The frame that \<^verbatim>\<open>send_command\<close> writes\<close>

text \<open>
  Claim C1, as amended. On a driver whose port is open, for a command id of four
  hexadecimal digits (the two bytes \<open>c\<close>) and parameter bytes \<open>p\<close>, each in 0..255,
  whose declared count is \<open>length p\<close> and is at most 255, \<^verbatim>\<open>send_command\<close> appends to
  the port exactly the frame of the specification: \<open>0x16\<close>, \<open>c\<close>, the count in one
  byte, \<open>p\<close>, two zero bytes. The frame has \<open>6 + length p\<close> bytes, its byte at
  index 3 is \<open>length p\<close>, and its last two bytes are zero.
\<close>

theorem send_command_frame:
  assumes "ser d = Some port"
    and "unhexlify cmd_id = Inr c" and "length c = 2"
    and "n_bytes = int (length p)" and "length p \<le> 255"
    and "\<forall>b\<in>set p. 0 \<le> b \<and> b \<le> 255"
  shows "ser (snd (send_command d cmd_id n_bytes p r))
           = Some \<lparr>written = written port @ spec_frame c p, incoming = drop r (incoming port)\<rparr>
         \<and> spec_frame c p = [0x16] @ c @ [of_nat (length p)] @ map word_of_int p @ [0, 0]
         \<and> length (spec_frame c p) = 6 + length p
         \<and> unat (spec_frame c p ! 3) = length p
         \<and> drop (4 + length p) (spec_frame c p) = [0, 0]"
proof (intro conjI)
  have "unhexlify (char_command cmd_id n_bytes p) = Inr (spec_frame c p)"
    using assms by (simp only: unhexlify_char_command)
  then show "ser (snd (send_command d cmd_id n_bytes p r))
      = Some \<lparr>written = written port @ spec_frame c p, incoming = drop r (incoming port)\<rparr>"
    using assms(1,4) by (simp only: send_command_connected(2))
  show "spec_frame c p = [0x16] @ c @ [of_nat (length p)] @ map word_of_int p @ [0, 0]"
    by (simp only: spec_frame_def)
  show "unat (spec_frame c p ! 3) = length p"
    using assms(3,5) by (simp only: spec_frame_count unat_count)
  show "length (spec_frame c p) = 6 + length p"
    using assms(3) by (rule spec_frame_length)
  show "drop (4 + length p) (spec_frame c p) = [0, 0]"
    using assms(3) by (rule spec_frame_crc)
qed

theorem send_command_frame_witness:
  "ser (init 0 False False (Some \<lparr>written = [], incoming = [6, 1, 1]\<rparr>))
     = Some \<lparr>written = [], incoming = [6, 1, 1]\<rparr>
   \<and> unhexlify ''0101'' = Inr [1, 1] \<and> length [1 :: byte, 1] = 2
   \<and> (1 :: int) = int (length [15 :: int]) \<and> length [15 :: int] \<le> 255
   \<and> (0 :: int) \<le> 15 \<and> (15 :: int) \<le> 255
   \<and> ser (snd (send_command (init 0 False False (Some \<lparr>written = [], incoming = [6, 1, 1]\<rparr>))
                 ''0101'' 1 [15] 2))
       = Some \<lparr>written = [0x16, 1, 1, 1, 15, 0, 0], incoming = [1]\<rparr>
   \<and> length (spec_frame [1, 1] [15]) = 7 \<and> unat (spec_frame [1, 1] [15] ! 3) = 1
   \<and> drop 5 (spec_frame [1, 1] [15]) = [0, 0]"
proof -
  have h1: "ser (init 0 False False (Some \<lparr>written = [], incoming = [6, 1, 1]\<rparr>))
     = Some \<lparr>written = [], incoming = [6, 1, 1]\<rparr>" by (rule init_connected)
  have h3: "length [1 :: byte, 1] = 2" by simp
  have h4: "(1 :: int) = int (length [15 :: int])" by simp
  have h5: "length [15 :: int] \<le> 255" by simp
  have h6: "\<forall>b\<in>set [15 :: int]. 0 \<le> b \<and> b \<le> 255" by simp
  show ?thesis
    using send_command_frame [OF h1 unhexlify_0101 h3 h4 h5 h6, of 2] h1 unhexlify_0101
    by simp
qed

text \<open>
  Claim C1 as stated, for every sequence of parameter bytes, fails at 256 parameter
  bytes: the count is printed with three hexadecimal digits, the text of the command has
  an odd length, \<^verbatim>\<open>unhexlify\<close> raises and nothing is written.
\<close>

theorem send_command_frame_counterexample:
  "fst (send_command (init 0 False False (Some \<lparr>written = [], incoming = []\<rparr>))
          ''0101'' 256 (replicate 256 0) 10) = Inl BinasciiError
   \<and> ser (snd (send_command (init 0 False False (Some \<lparr>written = [], incoming = []\<rparr>))
                 ''0101'' 256 (replicate 256 0) 10))
       = Some \<lparr>written = [], incoming = []\<rparr>"
proof -
  have "length (char_command ''0101'' 256 (replicate 256 0)) = 525"
    by (simp add: char_command_length format_02x_256 format_02x_zero
        length_concat sum_list_replicate)
  then have "odd (length (char_command ''0101'' 256 (replicate 256 0)))" by simp
  then have "unhexlify (char_command ''0101'' 256 (replicate 256 0)) = Inl BinasciiError"
    using char_command_ascii [OF ascii_0101] by (rule unhexlify_odd)
  then show ?thesis
    by (simp add: send_command_def init_connected)
qed

section \<open>A declared count that differs from the number of parameter bytes\<close>

text \<open>
  Claim C3, as amended. When the declared count \<^verbatim>\<open>n_bytes\<close> differs from
  \<^verbatim>\<open>len(var_bytes)\<close>, \<^verbatim>\<open>send_command\<close> raises nothing and returns \<^verbatim>\<open>None\<close>;
  unless \<^verbatim>\<open>serial_debug\<close> is set, the driver is left as it was, without a log line.
\<close>

theorem send_command_mismatch_returns_None:
  assumes "n_bytes \<noteq> int (length var_bytes)"
  shows "fst (send_command d cmd_id n_bytes var_bytes r) = Inr None
         \<and> (\<not> serial_debug d \<longrightarrow> snd (send_command d cmd_id n_bytes var_bytes r) = d)"
  using assms by (simp add: send_command_def)

theorem send_command_mismatch_returns_None_witness:
  "(1 :: int) \<noteq> int (length ([] :: int list))
   \<and> fst (send_command (init 0 False False None) ''0101'' 1 [] 10) = Inr None
   \<and> \<not> serial_debug (init 0 False False None)
   \<and> snd (send_command (init 0 False False None) ''0101'' 1 [] 10) = init 0 False False None"
proof -
  have h: "(1 :: int) \<noteq> int (length ([] :: int list))" by simp
  have sd: "\<not> serial_debug (init 0 False False None)" by (simp add: init_def write_log_def)
  show ?thesis
    using send_command_mismatch_returns_None [OF h, of "init 0 False False None" "''0101''" 10] h sd
    by simp
qed

text \<open>
  Claim C3 as stated asks for an error: with a declared count of 1 and no parameter byte,
  the call returns \<^verbatim>\<open>None\<close> and leaves the driver unchanged.
\<close>

theorem send_command_mismatch_counterexample:
  "send_command (init 0 False False (Some \<lparr>written = [], incoming = []\<rparr>)) ''0101'' 1 [] 10
     = (Inr None, init 0 False False (Some \<lparr>written = [], incoming = []\<rparr>))"
  by (simp add: send_command_def init_def write_log_def)

text \<open>
  Claim C7. When the declared count \<^verbatim>\<open>n_bytes\<close> differs from \<^verbatim>\<open>len(var_bytes)\<close>,
  \<^verbatim>\<open>send_command\<close> returns before it touches the port: the port of the driver, with
  all that was written to it and all that is still to be read, is the same afterwards.
\<close>

theorem send_command_mismatch_no_write:
  assumes "n_bytes \<noteq> int (length var_bytes)"
  shows "ser (snd (send_command d cmd_id n_bytes var_bytes r)) = ser d"
  using assms by (simp add: send_command_def)

theorem send_command_mismatch_no_write_witness:
  "(2 :: int) \<noteq> int (length [15 :: int])
   \<and> ser (snd (send_command (init 1 True False (Some \<lparr>written = [7], incoming = [1, 2]\<rparr>))
                 ''0101'' 2 [15] 10))
       = Some \<lparr>written = [7], incoming = [1, 2]\<rparr>"
proof -
  have h: "(2 :: int) \<noteq> int (length [15 :: int])" by simp
  show ?thesis
    using send_command_mismatch_no_write [OF h,
        of "init 1 True False (Some \<lparr>written = [7], incoming = [1, 2]\<rparr>)" "''0101''" 10] h
    by (simp add: init_connected)
qed

section \<open>Single-precision floats and their bytes\<close>

lemma bit_length_le: "n < 2 ^ k \<Longrightarrow> bit_length n \<le> k"
proof (induction k arbitrary: n)
  case 0
  then show ?case by (simp add: bit_length.simps)
next
  case (Suc k)
  have "n div 2 < 2 ^ k" using Suc.prems by simp
  then have "bit_length (n div 2) \<le> k" by (rule Suc.IH)
  then show ?case by (subst bit_length.simps) simp
qed

lemma bit_length_gt: "2 ^ k \<le> n \<Longrightarrow> k < bit_length n"
proof (induction k arbitrary: n)
  case 0
  then show ?case by (subst bit_length.simps) simp
next
  case (Suc k)
  have "2 ^ k \<le> n div 2" using Suc.prems by simp
  then have "k < bit_length (n div 2)" by (rule Suc.IH)
  moreover have "n \<noteq> 0"
  proof
    assume "n = 0"
    then have "(2 :: nat) ^ Suc k \<le> 0" using Suc.prems by simp
    then show False by simp
  qed
  ultimately show ?case by (subst bit_length.simps) simp
qed

lemma bit_length_24: "2 ^ 23 \<le> n \<Longrightarrow> n < 2 ^ 24 \<Longrightarrow> bit_length n = 24"
  using bit_length_le [of n 24] bit_length_gt [of 23 n] by simp

lemma unat_byte: "k < 256 \<Longrightarrow> unat (of_nat k :: byte) = k"
  by (simp add: unat_of_nat)

lemma unat_32_bound: "unat (w :: 32 word) < 4294967296"
  using unsigned_less [of w, where 'a = nat] by simp

lemma join_bytes:
  fixes n :: nat
  assumes "n = m1 * 256 + r0" and "m1 = m2 * 256 + r1" and "m2 = m3 * 256 + r2"
  shows "m3 * 16777216 + r2 * 65536 + r1 * 256 + r0 = n"
  using assms by simp

lemma split_bytes:
  fixes n :: nat
  shows "n div 16777216 * 16777216 + n div 65536 mod 256 * 65536 + n div 256 mod 256 * 256 + n mod 256 = n"
proof -
  have a: "n div 65536 = n div 256 div 256" by (simp add: div_mult2_eq)
  have b: "n div 16777216 = n div 256 div 256 div 256" by (simp add: div_mult2_eq)
  have 1: "n = n div 256 * 256 + n mod 256" by simp
  have 2: "n div 256 = n div 256 div 256 * 256 + n div 256 mod 256" by simp
  have 3: "n div 256 div 256 = n div 256 div 256 div 256 * 256 + n div 256 div 256 mod 256" by simp
  show ?thesis unfolding a b by (rule join_bytes [OF 1 2 3])
qed

lemma word_of_be_be_bytes:
  "be_bytes w = [a, b, c, d] \<Longrightarrow> word_of_be a b c d = w"
proof -
  assume h: "be_bytes w = [a, b, c, d]"
  let ?n = "unat w"
  have bound: "?n div 16777216 < 256" using unat_32_bound [of w] by simp
  have a: "unat a = ?n div 16777216" using h bound by (auto simp: be_bytes_def Let_def unat_byte)
  have b: "unat b = ?n div 65536 mod 256" using h by (auto simp: be_bytes_def Let_def unat_byte)
  have c: "unat c = ?n div 256 mod 256" using h by (auto simp: be_bytes_def Let_def unat_byte)
  have d: "unat d = ?n mod 256" using h by (auto simp: be_bytes_def Let_def unat_byte)
  have "unat a * 2 ^ 24 + unat b * 2 ^ 16 + unat c * 2 ^ 8 + unat d = ?n"
    unfolding a b c d using split_bytes [of ?n] by simp
  then show ?thesis by (simp only: word_of_be_def of_nat_unat ucast_id)
qed

lemma round_shift_zero: "round_shift m 0 = m"
  by (simp add: round_shift_def)

lemma join_fields:
  fixes n :: nat
  assumes "n = h * 8388608 + F" and "h = t * 256 + E"
  shows "n = t * 2147483648 + E * 8388608 + F"
  using assms by simp

lemma float32_fields:
  fixes w :: "32 word"
  defines "n \<equiv> unat w"
  shows "n = sign_bit (2 ^ 31 \<le> n) + n div 2 ^ 23 mod 256 * 2 ^ 23 + n mod 2 ^ 23"
proof -
  have bound: "n < 4294967296" unfolding n_def by (rule unat_32_bound)
  have top: "n div 2 ^ 23 div 256 = (if 2 ^ 31 \<le> n then 1 else 0)"
  proof (cases "2 ^ 31 \<le> n")
    case True
    then have "2147483648 \<le> n" by simp
    then have "n div 2147483648 = 1" using bound by (intro div_nat_eqI) simp_all
    then show ?thesis using True by (simp add: div_mult2_eq [symmetric])
  next
    case False
    then show ?thesis by (simp add: div_mult2_eq [symmetric] div_eq_0_iff)
  qed
  have lo: "n = n div 8388608 * 8388608 + n mod 8388608" by simp
  have hi': "n div 8388608 = n div 8388608 div 256 * 256 + n div 8388608 mod 256" by simp
  have "n = n div 8388608 div 256 * 2147483648 + n div 8388608 mod 256 * 8388608 + n mod 8388608"
    by (rule join_fields [OF lo hi'])
  moreover have "n div 8388608 div 256 * 2147483648 = sign_bit (2 ^ 31 \<le> n)"
    using top by (simp add: sign_bit_def)
  ultimately show ?thesis by simp
qed

lemma float32_bits_exact:
  assumes "0 < m" and "max (e + int (bit_length m) - 24) (- 149) = e" and "m < 2 ^ 24"
    and "e \<le> 104"
  shows "float32_bits (Fin s m e) =
     (if m < 2 ^ 23 then Inr (of_nat (sign_bit s + m))
      else Inr (of_nat (sign_bit s + nat (e + 150) * 2 ^ 23 + (m - 2 ^ 23))))"
proof -
  have r: "round_shift m (e - e) = m" by (simp add: round_shift_zero)
  have ne: "m \<noteq> 2 ^ 24" "m \<noteq> 0" "\<not> 104 < e" using assms by simp_all
  show ?thesis
    by (simp only: float32_bits.simps Let_def assms(2) r ne if_False)
qed

text \<open>
  The float of the pattern with sign \<open>s\<close>, exponent field \<open>E\<close> and fraction field
  \<open>M\<close>, as an abbreviation for the lemmas below.
\<close>

lemma float32_pattern_fields:
  fixes s :: bool and E M :: nat
  assumes "E < 256" and "M < 2 ^ 23"
  defines "n \<equiv> sign_bit s + E * 2 ^ 23 + M"
  shows "unat (of_nat n :: 32 word) = n" and "(2 ^ 31 \<le> n) = s"
    and "n div 2 ^ 23 mod 256 = E" and "n mod 2 ^ 23 = M"
proof -
  have "n < 4294967296" using assms(1,2) by (simp add: n_def sign_bit_def)
  then show "unat (of_nat n :: 32 word) = n" by (simp add: unat_of_nat)
  show "(2 ^ 31 \<le> n) = s" using assms(1,2) by (cases s) (simp_all add: n_def sign_bit_def)
  have n: "n = (if s then 256 + E else E) * 8388608 + M" by (simp add: n_def sign_bit_def)
  have "n div 8388608 = (if s then 256 + E else E)"
    using assms(2) by (simp only: n) simp
  then show "n div 2 ^ 23 mod 256 = E" using assms(1) by simp
  show "n mod 2 ^ 23 = M" using assms(2) by (simp only: n) simp
qed

lemma float32_value_fields:
  assumes "E < 256" and "M < 2 ^ 23"
  shows "float32_value (of_nat (sign_bit s + E * 2 ^ 23 + M)) =
     (if E = 255 then (if M = 0 then Inf s else NaN s ((2 ^ 22 + M mod 2 ^ 22) * 2 ^ 29))
      else if E = 0 then Fin s M (- 149)
      else Fin s (2 ^ 23 + M) (int E - 150))"
  unfolding float32_value_def Let_def float32_pattern_fields [OF assms] by (rule refl)

lemma float32_bits_fields:
  assumes "E < 256" and "M < 2 ^ 23"
  shows "float32_bits
       (if E = 255 then (if M = 0 then Inf s else NaN s ((2 ^ 22 + M mod 2 ^ 22) * 2 ^ 29))
        else if E = 0 then Fin s M (- 149)
        else Fin s (2 ^ 23 + M) (int E - 150))
     = Inr (of_nat (sign_bit s + E * 2 ^ 23
                    + (if E = 255 \<and> 0 < M then 2 ^ 22 + M mod 2 ^ 22 else M)))"
proof -
  consider (inf) "E = 255" "M = 0" | (nan) "E = 255" "0 < M" | (zero) "E = 0" "M = 0"
    | (sub) "E = 0" "0 < M" | (normal) "0 < E" "E < 255"
    using assms(1) by (cases "E = 255"; cases "E = 0"; cases "M = 0") auto
  then show ?thesis
  proof cases
    case inf
    then show ?thesis by simp
  next
    case nan
    have "(2 ^ 22 + M mod 2 ^ 22) * 2 ^ 29 div 2 ^ 29 mod 2 ^ 22 = M mod (2 ^ 22 :: nat)"
      by simp
    then have "float32_bits (NaN s ((2 ^ 22 + M mod 2 ^ 22) * 2 ^ 29))
        = Inr (of_nat (sign_bit s + 0x7fc00000 + M mod 2 ^ 22))"
      by (simp only: float32_bits.simps)
    moreover have "sign_bit s + 0x7fc00000 + M mod 2 ^ 22
        = sign_bit s + 255 * 2 ^ 23 + (2 ^ 22 + M mod 2 ^ 22)" by simp
    ultimately show ?thesis using nan by simp
  next
    case zero
    then show ?thesis by simp
  next
    case sub
    have "bit_length M \<le> 23" using assms(2) by (rule bit_length_le)
    then have q0: "max (- 149 + int (bit_length M) - 24) (- 149) = - 149" by simp
    have "float32_bits (Fin s M (- 149)) = Inr (of_nat (sign_bit s + M))"
      using float32_bits_exact [OF sub(2) q0, of s] assms(2) by simp
    then show ?thesis using sub by simp
  next
    case normal
    let ?m = "2 ^ 23 + M"
    have bl: "bit_length ?m = 24" using assms(2) by (intro bit_length_24) simp_all
    have q0: "max (int E - 150 + int (bit_length ?m) - 24) (- 149) = int E - 150"
      using normal bl by simp
    have pos: "0 < ?m" by simp
    have "float32_bits (Fin s ?m (int E - 150))
        = Inr (of_nat (sign_bit s + nat (int E - 150 + 150) * 2 ^ 23 + (?m - 2 ^ 23)))"
      using float32_bits_exact [OF pos q0, of s] normal assms(2) by simp
    moreover have "sign_bit s + nat (int E - 150 + 150) * 2 ^ 23 + (?m - 2 ^ 23)
        = sign_bit s + E * 2 ^ 23 + M" by simp
    ultimately have "float32_bits (Fin s ?m (int E - 150))
        = Inr (of_nat (sign_bit s + E * 2 ^ 23 + M))" by (simp only:)
    then show ?thesis using normal by simp
  qed
qed

text \<open>
  Packing the float of a pattern gives the pattern back, unless it is the pattern of a
  signalling NaN (exponent field 255, fraction not zero and below \<open>2^22\<close>), which
  \<^verbatim>\<open>struct.unpack\<close> has read as the quiet NaN of that sign and payload.
\<close>

lemma float32_bits_value:
  fixes w :: "32 word"
  assumes "(\<forall>s f. float32_value w \<noteq> NaN s f) \<or> 2 ^ 22 \<le> unat w mod 2 ^ 23"
  shows "float32_bits (float32_value w) = Inr w"
proof -
  define n where "n = unat w"
  define s where "s = ((2 :: nat) ^ 31 \<le> n)"
  define E where "E = n div 2 ^ 23 mod 256"
  define M where "M = n mod 2 ^ 23"
  have n: "n = sign_bit s + E * 2 ^ 23 + M"
    unfolding n_def s_def E_def M_def by (rule float32_fields)
  have w: "(of_nat n :: 32 word) = w" by (simp add: n_def)
  have E: "E < 256" by (simp add: E_def)
  have M: "M < 2 ^ 23" by (simp add: M_def)
  have v: "float32_value w =
      (if E = 255 then (if M = 0 then Inf s else NaN s ((2 ^ 22 + M mod 2 ^ 22) * 2 ^ 29))
       else if E = 0 then Fin s M (- 149)
       else Fin s (2 ^ 23 + M) (int E - 150))"
    using float32_value_fields [OF E M, of s] by (simp only: n [symmetric] w)
  have quiet: "2 ^ 22 + M mod 2 ^ 22 = M" if "E = 255" "0 < M"
  proof -
    have "2 ^ 22 \<le> M" using assms that v by (auto simp: M_def n_def)
    then have "M div 2 ^ 22 = 1" using M by (intro div_nat_eqI) simp_all
    then show ?thesis using div_mult_mod_eq [of M "2 ^ 22"] by simp
  qed
  have "(if E = 255 \<and> 0 < M then 2 ^ 22 + M mod 2 ^ 22 else M) = M"
    using quiet by simp
  then have "float32_bits (float32_value w) = Inr (of_nat (sign_bit s + E * 2 ^ 23 + M))"
    using float32_bits_fields [OF E M, of s] by (simp only: v)
  then show ?thesis by (simp only: n [symmetric] w)
qed

lemma float32_value_round_trip:
  "\<exists>w'. float32_bits (float32_value w) = Inr w' \<and> float32_value w' = float32_value w"
proof -
  define n where "n = unat w"
  define s where "s = ((2 :: nat) ^ 31 \<le> n)"
  define E where "E = n div 2 ^ 23 mod 256"
  define M where "M = n mod 2 ^ 23"
  define M' where "M' = (if E = 255 \<and> 0 < M then 2 ^ 22 + M mod 2 ^ 22 else M)"
  have n: "n = sign_bit s + E * 2 ^ 23 + M"
    unfolding n_def s_def E_def M_def by (rule float32_fields)
  have w: "(of_nat n :: 32 word) = w" by (simp add: n_def)
  have E: "E < 256" by (simp add: E_def)
  have M: "M < 2 ^ 23" by (simp add: M_def)
  have M': "M' < 2 ^ 23"
  proof -
    have "M mod 2 ^ 22 < 2 ^ 22" by simp
    then show ?thesis using M by (simp add: M'_def)
  qed
  have v: "float32_value w =
      (if E = 255 then (if M = 0 then Inf s else NaN s ((2 ^ 22 + M mod 2 ^ 22) * 2 ^ 29))
       else if E = 0 then Fin s M (- 149)
       else Fin s (2 ^ 23 + M) (int E - 150))"
    using float32_value_fields [OF E M, of s] by (simp only: n [symmetric] w)
  have bits: "float32_bits (float32_value w) = Inr (of_nat (sign_bit s + E * 2 ^ 23 + M'))"
    using float32_bits_fields [OF E M, of s] by (simp only: v M'_def)
  have "float32_value (of_nat (sign_bit s + E * 2 ^ 23 + M')) = float32_value w"
    unfolding float32_value_fields [OF E M'] v by (simp add: M'_def)
  then show ?thesis using bits by blast
qed


lemma float32_bits_neg_overflow:
  assumes "float32_bits x = Inl e"
  shows "float32_bits (neg x) = Inl e"
  using assms by (cases x) (auto simp: Let_def split: if_splits)


lemma int_base16_two:
  assumes "h < 16" and "l < 16"
  shows "int_base16 [hex_digit h, hex_digit l] = Inr (int (16 * h + l))"
  using assms by (simp add: int_base16_def hex_value_hex_digit)

lemma int_base16_byte:
  "int_base16 [hex_digit (unat b div 16), hex_digit (unat (b :: byte) mod 16)] = Inr (int (unat b))"
proof -
  have "unat b < 256" using unsigned_less [of b, where 'a = nat] by simp
  then have "unat b div 16 < 16" by simp
  moreover have "unat b mod 16 < 16" by simp
  ultimately have "int_base16 [hex_digit (unat b div 16), hex_digit (unat b mod 16)]
      = Inr (int (16 * (unat b div 16) + unat b mod 16))"
    by (rule int_base16_two)
  then show ?thesis by (simp only: mult_div_mod_eq)
qed

lemma float_to_dec_bytes_packed:
  assumes "struct_pack_be_f x = Inr [a, b, c, d]"
  shows "float_to_dec_bytes x = Inr [int (unat d), int (unat c), int (unat b), int (unat a)]"
  using assms
  by (simp add: float_to_dec_bytes_def hexlify_def py_slice_def int_base16_byte)

lemma float_to_dec_bytes_bits:
  assumes "float32_bits x = Inr w"
  shows "float_to_dec_bytes x = Inr (map (\<lambda>b. int (unat b)) (rev (be_bytes w)))"
proof -
  obtain a b c d where bs: "be_bytes w = [a, b, c, d]" by (simp add: be_bytes_def Let_def)
  then have "struct_pack_be_f x = Inr [a, b, c, d]" using assms by (simp add: struct_pack_be_f_def)
  then show ?thesis by (simp add: float_to_dec_bytes_packed bs)
qed

lemma float_to_dec_bytes_overflow:
  assumes "float32_bits x = Inl e"
  shows "float_to_dec_bytes x = Inl e"
  using assms by (simp add: float_to_dec_bytes_def struct_pack_be_f_def)

lemma float_to_dec_bytes_length:
  assumes "float_to_dec_bytes x = Inr dec"
  shows "length dec = 4"
proof (cases "float32_bits x")
  case (Inl e)
  then show ?thesis using assms by (simp add: float_to_dec_bytes_overflow)
next
  case (Inr w)
  then show ?thesis using assms by (auto simp: float_to_dec_bytes_bits be_bytes_def Let_def)
qed

lemma byte_of_unat: "word_of_int (int (unat (b :: byte))) = b"
  by simp

lemma unpack_little_endian:
  assumes "be_bytes w = [a, b, c, d]"
  shows "struct_unpack_f LittleEndian [d, c, b, a] = Inr (float32_value w)"
  using word_of_be_be_bytes [OF assms] by (simp add: struct_unpack_f_def)

lemma py_slice_middle:
  assumes "length pre = i" and "length bs = j - i" and "i \<le> j"
  shows "py_slice i j (pre @ bs @ post) = bs"
  using assms by (simp add: py_slice_def)

lemma decode_little_endian:
  assumes "float32_bits x = Inr w" and "float_to_dec_bytes x = Inr dec" and "length pre = 4"
  shows "struct_unpack_f LittleEndian (py_slice 4 8 (pre @ map word_of_int dec @ post))
         = Inr (float32_value w)"
proof -
  obtain a b c d where bs: "be_bytes w = [a, b, c, d]" by (simp add: be_bytes_def Let_def)
  have "dec = map (\<lambda>b. int (unat b)) (rev (be_bytes w))"
    using assms(1,2) by (simp add: float_to_dec_bytes_bits)
  then have dec: "map word_of_int dec = [d, c, b, a]" by (simp add: bs)
  have "py_slice 4 8 (pre @ [d, c, b, a] @ post) = [d, c, b, a]"
    using assms(3) by (intro py_slice_middle) simp_all
  then show ?thesis by (simp only: dec unpack_little_endian [OF bs])
qed

lemma unhexlify_position_inquiry:
  assumes "0 \<le> axis" and "axis \<le> 255"
  shows "unhexlify (char_command ''0101'' 1 [axis]) = Inr [0x16, 1, 1, 1, word_of_int axis, 0, 0]"
proof -
  have "unhexlify (char_command ''0101'' (int (length [axis])) [axis]) = Inr (spec_frame [1, 1] [axis])"
    using assms by (intro unhexlify_char_command unhexlify_0101) simp_all
  then show ?thesis by (simp add: spec_frame_def)
qed

lemma position_inquiry_connected:
  assumes "ser d = Some port" and "0 \<le> axis" and "axis \<le> 255"
  shows "fst (position_inquiry native d axis)
         = struct_unpack_f native (py_slice 4 8 (take 10 (incoming port)))"
    and "ser (snd (position_inquiry native d axis))
         = Some \<lparr>written = written port @ [0x16, 1, 1, 1, word_of_int axis, 0, 0],
                 incoming = drop 10 (incoming port)\<rparr>"
proof -
  let ?d1 = "write_log d [LText ''Query axis '', LInt axis, LText '' position ...'']"
  have port: "ser ?d1 = Some port" using assms(1) by simp
  have frame: "unhexlify (char_command ''0101'' 1 [axis]) = Inr [0x16, 1, 1, 1, word_of_int axis, 0, 0]"
    using assms(2,3) by (rule unhexlify_position_inquiry)
  have len: "(1 :: int) = int (length [axis])" by simp
  obtain r d2 where sc: "send_command ?d1 ''0101'' 1 [axis] 10 = (r, d2)" by force
  have r: "r = Inr (Some (take 10 (incoming port)))"
    using send_command_connected(1) [OF port frame len, of 10] sc by simp
  have d2: "ser d2 = Some \<lparr>written = written port @ [0x16, 1, 1, 1, word_of_int axis, 0, 0],
                 incoming = drop 10 (incoming port)\<rparr>"
    using send_command_connected(2) [OF port frame len, of 10] sc by simp
  show "fst (position_inquiry native d axis)
         = struct_unpack_f native (py_slice 4 8 (take 10 (incoming port)))"
    by (simp add: position_inquiry_def Let_def sc r split: sum.splits)
  show "ser (snd (position_inquiry native d axis))
         = Some \<lparr>written = written port @ [0x16, 1, 1, 1, word_of_int axis, 0, 0],
                 incoming = drop 10 (incoming port)\<rparr>"
    using d2 by (simp add: position_inquiry_def Let_def sc r split: sum.splits)
qed

section \<open>Encoding and decoding a position\<close>

lemma py_slice_take: "j \<le> n \<Longrightarrow> py_slice i j (take n xs) = py_slice i j xs"
  by (simp add: py_slice_def drop_take min_def)

text \<open>
  Claim C2. A single-precision value is the float that \<^verbatim>\<open>struct.unpack\<close> gives for a
  32-bit pattern \<open>w\<close>; the theorem is about every pattern. The driver runs where its
  port \<^verbatim>\<open>COM3\<close> and \<^verbatim>\<open>USERPROFILE\<close> exist, on Windows, and the native byte order
  of \<^verbatim>\<open>struct.unpack('f', ...)\<close> is little-endian there. \<^verbatim>\<open>float_to_dec_bytes\<close>
  returns four bytes, which are the bytes of the bit pattern \<open>w'\<close> of the value, least
  significant first. Decoding them the way \<^verbatim>\<open>position_inquiry\<close> does,
  \<^verbatim>\<open>struct.unpack('f', ans[4:8])\<close> on a reply that holds them at offset 4, yields the
  same float again, bit for bit: sign, exponent and fraction, the sign of a zero, and the
  sign and payload of a NaN. So does \<^verbatim>\<open>position_inquiry\<close> itself on a driver whose port
  delivers such a reply. The pattern \<open>w'\<close> is \<open>w\<close> itself, unless \<open>w\<close> is the pattern
  of a signalling NaN, whose float is a quiet NaN already.
\<close>

theorem float_round_trip:
  "\<exists>dec w'. float_to_dec_bytes (float32_value w) = Inr dec
     \<and> float32_bits (float32_value w) = Inr w'
     \<and> map word_of_int dec = rev (be_bytes w')
     \<and> float32_value w' = float32_value w
     \<and> ((\<forall>s f. float32_value w \<noteq> NaN s f) \<or> 2 ^ 22 \<le> unat w mod 2 ^ 23 \<longrightarrow> w' = w)
     \<and> (\<forall>pre post. length pre = 4 \<longrightarrow>
           struct_unpack_f LittleEndian (py_slice 4 8 (pre @ map word_of_int dec @ post))
             = Inr (float32_value w))
     \<and> (\<forall>d port axis pre post.
           ser d = Some port \<and> 0 \<le> axis \<and> axis \<le> 255
           \<and> incoming port = pre @ map word_of_int dec @ post \<and> length pre = 4 \<longrightarrow>
           fst (position_inquiry LittleEndian d axis) = Inr (float32_value w))"
proof -
  obtain w' where bits: "float32_bits (float32_value w) = Inr w'"
    and same: "float32_value w' = float32_value w"
    using float32_value_round_trip [of w] by blast
  let ?dec = "map (\<lambda>b. int (unat b)) (rev (be_bytes w'))"
  have enc: "float_to_dec_bytes (float32_value w) = Inr ?dec"
    using bits by (rule float_to_dec_bytes_bits)
  have bytes: "map word_of_int ?dec = rev (be_bytes w')"
    by (simp add: comp_def)
  have exact: "w' = w" if "(\<forall>s f. float32_value w \<noteq> NaN s f) \<or> 2 ^ 22 \<le> unat w mod 2 ^ 23"
    using float32_bits_value [OF that] bits by simp
  have dec: "struct_unpack_f LittleEndian (py_slice 4 8 (pre @ map word_of_int ?dec @ post))
      = Inr (float32_value w)" if "length pre = 4" for pre post
    using decode_little_endian [OF bits enc that, of post] by (simp only: same)
  have inq: "fst (position_inquiry LittleEndian d axis) = Inr (float32_value w)"
    if "ser d = Some port" "0 \<le> axis" "axis \<le> 255"
      "incoming port = pre @ map word_of_int ?dec @ post" "length pre = 4"
    for d port axis pre post
  proof -
    have "fst (position_inquiry LittleEndian d axis)
        = struct_unpack_f LittleEndian (py_slice 4 8 (take 10 (incoming port)))"
      using that(1-3) by (rule position_inquiry_connected(1))
    also have "\<dots> = struct_unpack_f LittleEndian (py_slice 4 8 (pre @ map word_of_int ?dec @ post))"
      by (simp only: that(4) py_slice_take [of 8 10, simplified])
    also have "\<dots> = Inr (float32_value w)" using that(5) by (rule dec)
    finally show ?thesis .
  qed
  show ?thesis
    using enc bits bytes same exact dec inq by blast
qed

lemma float32_value_minus_100: "float32_value 0xc2c80000 = Fin True 13107200 (- 17)"
  by (simp add: float32_value_def)

lemma float32_bits_minus_100: "float32_bits (float32_value 0xc2c80000) = Inr 0xc2c80000"
  by (rule float32_bits_value) (simp add: float32_value_minus_100)

lemma float_to_dec_bytes_minus_100:
  "float_to_dec_bytes (float32_value 0xc2c80000) = Inr [0, 0, 200, 194]"
proof -
  have "float_to_dec_bytes (float32_value 0xc2c80000)
      = Inr (map (\<lambda>b. int (unat b)) (rev (be_bytes 0xc2c80000)))"
    using float32_bits_minus_100 by (rule float_to_dec_bytes_bits)
  then show ?thesis by (simp add: be_bytes_def)
qed

lemma float32_value_minus_nan: "float32_value 0xffc00000 = NaN True 2251799813685248"
  by (simp add: float32_value_def)

lemma float32_bits_minus_nan: "float32_bits (float32_value 0xffc00000) = Inr 0xffc00000"
  by (rule float32_bits_value) simp

lemma float_to_dec_bytes_minus_nan:
  "float_to_dec_bytes (float32_value 0xffc00000) = Inr [0, 0, 192, 255]"
proof -
  have "float_to_dec_bytes (float32_value 0xffc00000)
      = Inr (map (\<lambda>b. int (unat b)) (rev (be_bytes 0xffc00000)))"
    using float32_bits_minus_nan by (rule float_to_dec_bytes_bits)
  then show ?thesis by (simp add: be_bytes_def)
qed

theorem float_round_trip_witness:
  "float_to_dec_bytes (float32_value 0xc2c80000) = Inr [0, 0, 200, 194]
   \<and> float32_bits (float32_value 0xc2c80000) = Inr 0xc2c80000
   \<and> fst (position_inquiry LittleEndian
            (init 0 False False (Some \<lparr>written = [], incoming = [0, 0, 0, 0, 0, 0, 200, 194, 0, 0]\<rparr>))
            15) = Inr (float32_value 0xc2c80000)
   \<and> float32_value 0xc2c80000 = Fin True 13107200 (- 17)
   \<and> float_to_dec_bytes (float32_value 0xffc00000) = Inr [0, 0, 192, 255]
   \<and> fst (position_inquiry LittleEndian
            (init 0 False False (Some \<lparr>written = [], incoming = [0, 0, 0, 0, 0, 0, 192, 255, 0, 0]\<rparr>))
            15) = Inr (float32_value 0xffc00000)
   \<and> float32_value 0xffc00000 = NaN True 2251799813685248"
proof -
  obtain dec where enc: "float_to_dec_bytes (float32_value 0xc2c80000) = Inr dec"
    and inq: "\<And>d port axis pre post.
           ser d = Some port \<and> 0 \<le> axis \<and> axis \<le> 255
           \<and> incoming port = pre @ map word_of_int dec @ post \<and> length pre = 4 \<Longrightarrow>
           fst (position_inquiry LittleEndian d axis) = Inr (float32_value 0xc2c80000)"
    using float_round_trip [of "0xc2c80000"] by blast
  have dec: "dec = [0, 0, 200, 194]" using enc by (simp add: float_to_dec_bytes_minus_100)
  let ?port = "\<lparr>written = [], incoming = [0, 0, 0, 0, 0, 0, 200, 194, 0, 0 :: byte]\<rparr>"
  have a: "fst (position_inquiry LittleEndian (init 0 False False (Some ?port)) 15)
      = Inr (float32_value 0xc2c80000)"
    by (rule inq [of _ ?port _ "[0, 0, 0, 0]" "[0, 0]"]) (simp add: init_connected dec)
  obtain dec' where enc': "float_to_dec_bytes (float32_value 0xffc00000) = Inr dec'"
    and inq': "\<And>d port axis pre post.
           ser d = Some port \<and> 0 \<le> axis \<and> axis \<le> 255
           \<and> incoming port = pre @ map word_of_int dec' @ post \<and> length pre = 4 \<Longrightarrow>
           fst (position_inquiry LittleEndian d axis) = Inr (float32_value 0xffc00000)"
    using float_round_trip [of "0xffc00000"] by blast
  have dec': "dec' = [0, 0, 192, 255]" using enc' by (simp add: float_to_dec_bytes_minus_nan)
  let ?port' = "\<lparr>written = [], incoming = [0, 0, 0, 0, 0, 0, 192, 255, 0, 0 :: byte]\<rparr>"
  have b: "fst (position_inquiry LittleEndian (init 0 False False (Some ?port')) 15)
      = Inr (float32_value 0xffc00000)"
    by (rule inq' [of _ ?port' _ "[0, 0, 0, 0]" "[0, 0]"]) (simp add: init_connected dec')
  show ?thesis
    using a b float_to_dec_bytes_minus_100 float32_bits_minus_100 float32_value_minus_100
      float_to_dec_bytes_minus_nan float32_value_minus_nan
    by blast
qed

section \<open>A reply that is shorter than expected\<close>

lemma case_four_other:
  "length xs \<noteq> 4 \<Longrightarrow> (case xs of [a, b, c, d] \<Rightarrow> f a b c d | _ \<Rightarrow> e) = e"
  by (auto split: list.splits)

lemma struct_unpack_f_short:
  assumes "length bs \<noteq> 4"
  shows "struct_unpack_f native bs = Inl StructError"
proof -
  have "length (if native = LittleEndian then rev bs else bs) \<noteq> 4" using assms by simp
  then show ?thesis unfolding struct_unpack_f_def by (rule case_four_other)
qed

lemma struct_unpack_f_four:
  "length bs = 4 \<Longrightarrow> \<exists>v. struct_unpack_f native bs = Inr v"
proof -
  assume h: "length bs = 4"
  then obtain a b c d where "bs = [a, b, c, d]"
    by (auto simp: numeral_eq_Suc length_Suc_conv)
  then show ?thesis by (simp add: struct_unpack_f_def)
qed

lemma length_reply_slice:
  "length (py_slice 4 8 (take 10 xs)) = min 4 (length xs - 4)"
  by (simp add: py_slice_def)

text \<open>
  Claim C4, as amended. \<^verbatim>\<open>send_command\<close> does not compare the reply with the expected
  length: on an open port it returns the bytes that arrived, however few, and raises
  nothing. \<^verbatim>\<open>position_inquiry\<close> then raises \<^verbatim>\<open>struct.error\<close> when fewer than 8
  bytes arrived, and decodes no float; from 8 bytes on it decodes bytes 4 to 7 and returns
  a position, also when the reply is shorter than the 10 bytes expected.
\<close>

theorem short_reply_not_checked:
  assumes "ser d = Some port" and "0 \<le> axis" and "axis \<le> 255"
  shows "fst (send_command d ''0101'' 1 [axis] 10) = Inr (Some (take 10 (incoming port)))
         \<and> (length (incoming port) < 8 \<longrightarrow>
              fst (position_inquiry native d axis) = Inl StructError)
         \<and> (8 \<le> length (incoming port) \<longrightarrow>
              (\<exists>v. fst (position_inquiry native d axis) = Inr v))"
proof (intro conjI impI)
  have frame: "unhexlify (char_command ''0101'' 1 [axis]) = Inr [0x16, 1, 1, 1, word_of_int axis, 0, 0]"
    using assms(2,3) by (rule unhexlify_position_inquiry)
  show "fst (send_command d ''0101'' 1 [axis] 10) = Inr (Some (take 10 (incoming port)))"
    using assms(1) frame by (rule send_command_connected(1)) simp
  have inq: "fst (position_inquiry native d axis)
      = struct_unpack_f native (py_slice 4 8 (take 10 (incoming port)))"
    using assms by (rule position_inquiry_connected(1))
  show "fst (position_inquiry native d axis) = Inl StructError" if "length (incoming port) < 8"
  proof -
    have "length (py_slice 4 8 (take 10 (incoming port))) \<noteq> 4"
      unfolding length_reply_slice using that by simp
    then have "struct_unpack_f native (py_slice 4 8 (take 10 (incoming port))) = Inl StructError"
      by (rule struct_unpack_f_short)
    then show ?thesis by (simp only: inq)
  qed
  show "\<exists>v. fst (position_inquiry native d axis) = Inr v" if "8 \<le> length (incoming port)"
  proof -
    have "length (py_slice 4 8 (take 10 (incoming port))) = 4"
      unfolding length_reply_slice using that by simp
    then have "\<exists>v. struct_unpack_f native (py_slice 4 8 (take 10 (incoming port))) = Inr v"
      by (rule struct_unpack_f_four)
    then show ?thesis by (simp only: inq)
  qed
qed

theorem short_reply_not_checked_witness:
  "ser (init 0 False False (Some \<lparr>written = [], incoming = [6, 1, 1]\<rparr>))
     = Some \<lparr>written = [], incoming = [6, 1, 1]\<rparr>
   \<and> (0 :: int) \<le> 15 \<and> (15 :: int) \<le> 255
   \<and> fst (send_command (init 0 False False (Some \<lparr>written = [], incoming = [6, 1, 1]\<rparr>))
            ''0101'' 1 [15] 10) = Inr (Some [6, 1, 1])
   \<and> length (incoming \<lparr>written = [], incoming = [6, 1, 1 :: byte]\<rparr>) < 8
   \<and> fst (position_inquiry LittleEndian
            (init 0 False False (Some \<lparr>written = [], incoming = [6, 1, 1]\<rparr>)) 15)
       = Inl StructError"
proof -
  have h1: "ser (init 0 False False (Some \<lparr>written = [], incoming = [6, 1, 1]\<rparr>))
     = Some \<lparr>written = [], incoming = [6, 1, 1]\<rparr>" by (rule init_connected)
  have h2: "(0 :: int) \<le> 15" by simp
  have h3: "(15 :: int) \<le> 255" by simp
  show ?thesis
    using short_reply_not_checked [OF h1 h2 h3, of LittleEndian] h1 by simp
qed

text \<open>
  Claim C4 as stated asks for an error on every short reply: with 3 bytes where 10 are
  expected \<^verbatim>\<open>send_command\<close> returns the 3 bytes, and with 8 bytes where 10 are
  expected \<^verbatim>\<open>position_inquiry\<close> returns a position.
\<close>

theorem short_reply_counterexample:
  "fst (send_command (init 0 False False (Some \<lparr>written = [], incoming = [6, 1, 1]\<rparr>))
          ''0101'' 1 [15] 10) = Inr (Some [6, 1, 1])
   \<and> fst (position_inquiry LittleEndian
            (init 0 False False (Some \<lparr>written = [], incoming = [0, 0, 0, 0, 0, 0, 128, 63]\<rparr>))
            15) = Inr (Fin False 8388608 (- 23))"
proof -
  let ?p3 = "\<lparr>written = [], incoming = [6, 1, 1 :: byte]\<rparr>"
  let ?p8 = "\<lparr>written = [], incoming = [0, 0, 0, 0, 0, 0, 128, 63 :: byte]\<rparr>"
  have "unhexlify (char_command ''0101'' 1 [15]) = Inr [0x16, 1, 1, 1, word_of_int 15, 0, 0]"
    by (rule unhexlify_position_inquiry) simp_all
  then have "fst (send_command (init 0 False False (Some ?p3)) ''0101'' 1 [15] 10)
      = Inr (Some (take 10 (incoming ?p3)))"
    by (intro send_command_connected(1)) (simp_all add: init_connected)
  moreover have "fst (position_inquiry LittleEndian (init 0 False False (Some ?p8)) 15)
      = struct_unpack_f LittleEndian (py_slice 4 8 (take 10 (incoming ?p8)))"
    by (rule position_inquiry_connected(1)) (simp_all add: init_connected)
  moreover have "struct_unpack_f LittleEndian (py_slice 4 8 (take 10 (incoming ?p8)))
      = Inr (Fin False 8388608 (- 23))"
    by (simp add: py_slice_def struct_unpack_f_def word_of_be_def float32_value_def)
  ultimately show ?thesis by simp
qed

section \<open>The four bytes of a position\<close>

lemma float_to_dec_bytes_range:
  assumes "float_to_dec_bytes x = Inr dec"
  shows "\<forall>b\<in>set dec. 0 \<le> b \<and> b \<le> 255"
proof (cases "float32_bits x")
  case (Inl e)
  then show ?thesis using assms by (simp add: float_to_dec_bytes_overflow)
next
  case (Inr w)
  have "int (unat (b :: byte)) \<le> 255" for b
    using unsigned_less [of b, where 'a = int] by simp
  then show ?thesis using assms Inr by (auto simp: float_to_dec_bytes_bits)
qed

lemma float32_bits_below_2_127:
  assumes "int (bit_length m) + e \<le> 127"
  shows "\<exists>w. float32_bits (Fin s m e) = Inr w"
proof -
  define q0 where "q0 = max (e + int (bit_length m) - 24) (- 149)"
  have "q0 \<le> 103" using assms by (simp add: q0_def)
  then have "\<not> 104 < (if round_shift m (q0 - e) = 2 ^ 24 then q0 + 1 else q0)" by simp
  then show ?thesis
    by (simp add: Let_def q0_def [symmetric] del: One_nat_def)
qed

lemma float32_bits_from_2_128:
  assumes "0 < m" and "129 \<le> int (bit_length m) + e"
  shows "float32_bits (Fin s m e) = Inl OverflowError"
proof -
  define q0 where "q0 = max (e + int (bit_length m) - 24) (- 149)"
  have "105 \<le> q0" using assms by (simp add: q0_def)
  then have "104 < (if round_shift m (q0 - e) = 2 ^ 24 then q0 + 1 else q0)" by simp
  then show ?thesis
    using assms(1) by (simp add: Let_def q0_def [symmetric] del: One_nat_def)
qed

lemma send_command_not_None:
  assumes "n = int (length p)"
  shows "fst (send_command d cmd_id n p r) \<noteq> Inr None"
  using assms
  by (simp add: send_command_def Let_def ser_read_def split: sum.splits option.splits)

lemma approach_position_not_None:
  "fst (approach_position d axis position absolute slow reverse) \<noteq> Inr None"
proof (cases "float_to_dec_bytes (if reverse then neg position else position)")
  case (Inl e)
  then show ?thesis by (simp add: approach_position_def Let_def)
next
  case (Inr dec)
  then have "length dec = 4" by (rule float_to_dec_bytes_length)
  then have len: "(5 :: int) = int (length ([axis] @ dec))" by simp
  show ?thesis
    using Inr send_command_not_None [OF len]
    by (simp add: approach_position_def Let_def split: option.splits prod.splits)
qed

text \<open>
  Claim C9, as amended. \<^verbatim>\<open>struct.pack\<close> converts every NaN (of either sign and any
  payload), every infinity and every
  finite float below \<open>2^127\<close> in magnitude (\<open>bit_length m + e \<le> 127\<close> for the
  float \<open>m * 2^e\<close>) to single precision. Whenever it does, with the bit pattern
  \<open>w\<close>, \<^verbatim>\<open>float_to_dec_bytes\<close> returns exactly 4 integers, each in 0..255, which
  are the big-endian bytes of \<open>w\<close> in reversed order, so that the parameter list of
  \<^verbatim>\<open>approach_position\<close> has the 5 entries it declares; \<^verbatim>\<open>approach_position\<close> never
  gets the \<^verbatim>\<open>None\<close> of a wrong count from \<^verbatim>\<open>send_command\<close>.
\<close>

theorem float_to_dec_bytes_four_bytes:
  "(number = NaN s f \<or> number = Inf s \<or> (number = Fin s m e \<and> int (bit_length m) + e \<le> 127)
      \<longrightarrow> (\<exists>w. float32_bits number = Inr w))
   \<and> (\<forall>w. float32_bits number = Inr w \<longrightarrow>
         (\<exists>dec. float_to_dec_bytes number = Inr dec \<and> length dec = 4
            \<and> (\<forall>b\<in>set dec. 0 \<le> b \<and> b \<le> 255)
            \<and> map word_of_int (rev dec) = be_bytes w
            \<and> int (length ([axis] @ dec)) = 5))
   \<and> fst (approach_position d axis number absolute slow reverse) \<noteq> Inr None"
proof (intro conjI impI allI)
  assume "number = NaN s f \<or> number = Inf s \<or> (number = Fin s m e \<and> int (bit_length m) + e \<le> 127)"
  then show "\<exists>w. float32_bits number = Inr w"
    using float32_bits_below_2_127 [of m e s] by auto
next
  fix w
  assume bits: "float32_bits number = Inr w"
  let ?dec = "map (\<lambda>b. int (unat b)) (rev (be_bytes w))"
  have enc: "float_to_dec_bytes number = Inr ?dec" using bits by (rule float_to_dec_bytes_bits)
  have len: "length ?dec = 4" using enc by (rule float_to_dec_bytes_length)
  have range: "\<forall>b\<in>set ?dec. 0 \<le> b \<and> b \<le> 255" using enc by (rule float_to_dec_bytes_range)
  have rev_dec: "map word_of_int (rev ?dec) = be_bytes w"
    by (simp add: rev_map comp_def)
  have "int (length ([axis] @ ?dec)) = 5" using len by simp
  then show "\<exists>dec. float_to_dec_bytes number = Inr dec \<and> length dec = 4
            \<and> (\<forall>b\<in>set dec. 0 \<le> b \<and> b \<le> 255)
            \<and> map word_of_int (rev dec) = be_bytes w
            \<and> int (length ([axis] @ dec)) = 5"
    using enc len range rev_dec by blast
next
  show "fst (approach_position d axis number absolute slow reverse) \<noteq> Inr None"
    by (rule approach_position_not_None)
qed

lemma bit_length_100: "bit_length 100 = 7"
  by (simp add: bit_length.simps)

lemma float32_bits_minus_nan_double: "float32_bits (NaN True 2251799813685248) = Inr 0xffc00000"
  by (simp add: sign_bit_def)

theorem float_to_dec_bytes_four_bytes_witness:
  "int (bit_length 100) + 0 \<le> 127
   \<and> float32_bits (Fin True 100 0) = Inr 0xc2c80000
   \<and> float_to_dec_bytes (Fin True 100 0) = Inr [0, 0, 200, 194]
   \<and> be_bytes 0xc2c80000 = [194, 200, 0, 0]
   \<and> float32_bits (NaN True 2251799813685248) = Inr 0xffc00000
   \<and> float_to_dec_bytes (NaN True 2251799813685248) = Inr [0, 0, 192, 255]
   \<and> be_bytes 0xffc00000 = [255, 192, 0, 0]"
proof -
  have small: "int (bit_length 100) + 0 \<le> 127" by (simp add: bit_length_100)
  have bits: "float32_bits (Fin True 100 0) = Inr 0xc2c80000"
    by (simp add: bit_length_100 round_shift_def sign_bit_def)
  have bytes: "be_bytes 0xc2c80000 = [194, 200, 0, 0]" by (simp add: be_bytes_def)
  have bytes': "be_bytes 0xffc00000 = [255, 192, 0, 0]" by (simp add: be_bytes_def)
  obtain dec where enc: "float_to_dec_bytes (Fin True 100 0) = Inr dec"
    and len: "length dec = 4"
    and range: "\<forall>b\<in>set dec. 0 \<le> b \<and> b \<le> 255"
    and rev_dec: "map word_of_int (rev dec) = be_bytes 0xc2c80000"
    using float_to_dec_bytes_four_bytes [of "Fin True 100 0" True 0 100 0] bits by blast
  have fin: "float_to_dec_bytes (Fin True 100 0) = Inr [0, 0, 200, 194]"
    using float_to_dec_bytes_bits [OF bits] by (simp add: bytes)
  obtain dec' where enc': "float_to_dec_bytes (NaN True 2251799813685248) = Inr dec'"
    and len': "length dec' = 4"
    and range': "\<forall>b\<in>set dec'. 0 \<le> b \<and> b \<le> 255"
    and rev_dec': "map word_of_int (rev dec') = be_bytes 0xffc00000"
    using float_to_dec_bytes_four_bytes [of "NaN True 2251799813685248" True 2251799813685248]
      float32_bits_minus_nan_double by blast
  have nan: "float_to_dec_bytes (NaN True 2251799813685248) = Inr [0, 0, 192, 255]"
    using float_to_dec_bytes_bits [OF float32_bits_minus_nan_double] by (simp add: bytes')
  show ?thesis
    using small bits bytes bytes' fin nan float32_bits_minus_nan_double by blast
qed

text \<open>
  Claim C9 as stated, for every finite float, fails at \<open>2^128\<close>: \<^verbatim>\<open>struct.pack\<close>
  raises \<^verbatim>\<open>OverflowError\<close>, and so do \<^verbatim>\<open>float_to_dec_bytes\<close> and
  \<^verbatim>\<open>approach_position\<close>.
\<close>

theorem float_to_dec_bytes_counterexample:
  "float_to_dec_bytes (Fin False 1 128) = Inl OverflowError
   \<and> fst (approach_position
            (init 0 False False (Some \<lparr>written = [], incoming = []\<rparr>))
            15 (Fin False 1 128) True True False) = Inl OverflowError"
proof -
  have "bit_length 1 = 1" by (simp add: bit_length.simps)
  then have "float32_bits (Fin False 1 128) = Inl OverflowError"
    by (intro float32_bits_from_2_128) simp_all
  then have "float_to_dec_bytes (Fin False 1 128) = Inl OverflowError"
    by (rule float_to_dec_bytes_overflow)
  then show ?thesis by (simp add: approach_position_def Let_def)
qed

section \<open>\<^verbatim>\<open>approach_position\<close>\<close>

lemma unhexlify_approach_ids:
  "unhexlify ''0048'' = Inr [0x00, 0x48]" "unhexlify ''0049'' = Inr [0x00, 0x49]"
  "unhexlify ''004a'' = Inr [0x00, 0x4a]" "unhexlify ''004b'' = Inr [0x00, 0x4b]"
  by (simp_all add: hex_value_def)


lemma approach_position_send:
  assumes "approach_cmd absolute slow = Some (cmd_id, m)"
    and "float_to_dec_bytes (if reverse then neg position else position) = Inr dec"
  shows "approach_position d axis position absolute slow reverse =
     send_command
       (write_log d ([LText ''(axis: '', LInt axis, LText '') '', LText m,
                      LFloat (if reverse then neg position else position), LText '' um'']))
       cmd_id 5 ([axis] @ dec) 5"
  using assms by (simp add: approach_position_def Let_def)

lemma approach_position_frame:
  assumes "ser d = Some port" and "0 \<le> axis" and "axis \<le> 255"
    and "approach_cmd absolute slow = Some (cmd_id, m)" and "unhexlify cmd_id = Inr c"
    and "float_to_dec_bytes (if reverse then neg position else position) = Inr dec"
  shows "ser (snd (approach_position d axis position absolute slow reverse))
         = Some \<lparr>written = written port @ [0x16] @ c @ [5, word_of_int axis] @ map word_of_int dec @ [0, 0],
                 incoming = drop 5 (incoming port)\<rparr>"
proof -
  let ?d1 = "write_log d ([LText ''(axis: '', LInt axis, LText '') '', LText m,
                      LFloat (if reverse then neg position else position), LText '' um''])"
  have port: "ser ?d1 = Some port" using assms(1) by simp
  have len4: "length dec = 4" using assms(6) by (rule float_to_dec_bytes_length)
  have range: "\<forall>b\<in>set ([axis] @ dec). 0 \<le> b \<and> b \<le> 255"
    using float_to_dec_bytes_range [OF assms(6)] assms(2,3) by simp
  have len: "(5 :: int) = int (length ([axis] @ dec))" using len4 by simp
  have "unhexlify (char_command cmd_id (int (length ([axis] @ dec))) ([axis] @ dec))
      = Inr (spec_frame c ([axis] @ dec))"
    using assms(5) _ range by (rule unhexlify_char_command) (simp add: len4)
  then have frame: "unhexlify (char_command cmd_id 5 ([axis] @ dec))
      = Inr ([0x16] @ c @ [5, word_of_int axis] @ map word_of_int dec @ [0, 0])"
    using len4 by (simp add: spec_frame_def)
  show ?thesis
    using send_command_connected(2) [OF port frame len, of 5]
    by (simp only: approach_position_send [OF assms(4,6)])
qed

lemma unhexlify_prefix:
  assumes "unhexlify a = Inr xs" and "unhexlify (a @ b) = Inr f"
  shows "\<exists>rest. f = xs @ rest"
  using unhexlify_append [OF assms(1), of b] assms(2) by (auto split: sum.splits)

lemma send_command_prefix:
  assumes "ser d = Some port" and "unhexlify (''16'' @ cmd_id) = Inr pre"
  shows "ser (snd (send_command d cmd_id n p r)) = Some port
         \<or> (\<exists>rest. ser (snd (send_command d cmd_id n p r))
                = Some \<lparr>written = written port @ pre @ rest, incoming = drop r (incoming port)\<rparr>)"
proof (cases "n = int (length p)")
  case False
  then show ?thesis using assms(1) by (simp add: send_command_def)
next
  case True
  show ?thesis
  proof (cases "unhexlify (char_command cmd_id n p)")
    case (Inl e)
    then show ?thesis using assms(1) True by (simp add: send_command_def)
  next
    case (Inr frame)
    have "char_command cmd_id n p
        = (''16'' @ cmd_id) @ format_02x n @ concat (map format_02x p) @ ''0000''"
      by (simp add: char_command_concat)
    then obtain rest where "frame = pre @ rest"
      using unhexlify_prefix [OF assms(2)] Inr by metis
    then show ?thesis
      using send_command_connected(2) [OF assms(1) Inr True, of r] by blast
  qed
qed

text \<open>
  Claim C5. Whatever \<^verbatim>\<open>approach_position\<close> writes to an open port starts with the sync
  byte and the two bytes \<open>0x00\<close>, \<open>opcode\<close>, where the opcode is given by the
  table on (absolute, slow): (true, false) gives \<open>0x48\<close>, (true, true) gives
  \<open>0x49\<close>, (false, false) gives \<open>0x4a\<close>, (false, true) gives \<open>0x4b\<close>. Either the
  call fails before it writes and leaves the port as it was, or it writes such a frame;
  for an axis in 0..255 and a position that \<^verbatim>\<open>float_to_dec_bytes\<close> encodes, it writes
  the frame with the count 5, the axis and the four bytes of the position.
\<close>

theorem approach_position_opcode:
  assumes "ser d = Some port"
  shows "\<exists>opcode.
           (absolute \<and> \<not> slow \<longrightarrow> opcode = 0x48)
           \<and> (absolute \<and> slow \<longrightarrow> opcode = 0x49)
           \<and> (\<not> absolute \<and> \<not> slow \<longrightarrow> opcode = 0x4a)
           \<and> (\<not> absolute \<and> slow \<longrightarrow> opcode = 0x4b)
           \<and> (ser (snd (approach_position d axis position absolute slow reverse)) = Some port
                \<or> (\<exists>rest. ser (snd (approach_position d axis position absolute slow reverse))
                      = Some \<lparr>written = written port @ [0x16, 0x00, opcode] @ rest,
                              incoming = drop 5 (incoming port)\<rparr>))
           \<and> (\<forall>dec. 0 \<le> axis \<and> axis \<le> 255
                  \<and> float_to_dec_bytes (if reverse then neg position else position) = Inr dec
                \<longrightarrow> ser (snd (approach_position d axis position absolute slow reverse))
                      = Some \<lparr>written = written port @ [0x16, 0x00, opcode]
                                         @ [5, word_of_int axis] @ map word_of_int dec @ [0, 0],
                              incoming = drop 5 (incoming port)\<rparr>)"
proof -
  have sel: "\<exists>cmd_id m opcode. approach_cmd absolute slow = Some (cmd_id, m)
      \<and> unhexlify (''16'' @ cmd_id) = Inr [0x16, 0x00, opcode]
      \<and> unhexlify cmd_id = Inr [0x00, opcode]
      \<and> (absolute \<and> \<not> slow \<longrightarrow> opcode = 0x48) \<and> (absolute \<and> slow \<longrightarrow> opcode = 0x49)
      \<and> (\<not> absolute \<and> \<not> slow \<longrightarrow> opcode = 0x4a) \<and> (\<not> absolute \<and> slow \<longrightarrow> opcode = 0x4b)"
    by (cases absolute; cases slow) (simp_all add: approach_cmd_def hex_value_def)
  then obtain cmd_id m opcode where cmd: "approach_cmd absolute slow = Some (cmd_id, m)"
    and c: "unhexlify (''16'' @ cmd_id) = Inr [0x16, 0x00, opcode]"
    and c2: "unhexlify cmd_id = Inr [0x00, opcode]"
    and table: "(absolute \<and> \<not> slow \<longrightarrow> opcode = 0x48) \<and> (absolute \<and> slow \<longrightarrow> opcode = 0x49)
      \<and> (\<not> absolute \<and> \<not> slow \<longrightarrow> opcode = 0x4a) \<and> (\<not> absolute \<and> slow \<longrightarrow> opcode = 0x4b)"
    by blast
  let ?position = "if reverse then neg position else position"
  have any: "ser (snd (approach_position d axis position absolute slow reverse)) = Some port
      \<or> (\<exists>rest. ser (snd (approach_position d axis position absolute slow reverse))
            = Some \<lparr>written = written port @ [0x16, 0x00, opcode] @ rest,
                    incoming = drop 5 (incoming port)\<rparr>)"
  proof (cases "float_to_dec_bytes ?position")
    case (Inl e)
    then show ?thesis using assms by (simp add: approach_position_def Let_def)
  next
    case (Inr dec)
    let ?d1 = "write_log d ([LText ''(axis: '', LInt axis, LText '') '', LText m,
                      LFloat ?position, LText '' um''])"
    have port: "ser ?d1 = Some port" using assms by simp
    show ?thesis
      using send_command_prefix [OF port c, of 5 "[axis] @ dec" 5]
      by (simp only: approach_position_send [OF cmd Inr])
  qed
  have full: "ser (snd (approach_position d axis position absolute slow reverse))
      = Some \<lparr>written = written port @ [0x16, 0x00, opcode]
                         @ [5, word_of_int axis] @ map word_of_int dec @ [0, 0],
              incoming = drop 5 (incoming port)\<rparr>"
    if "0 \<le> axis \<and> axis \<le> 255 \<and> float_to_dec_bytes ?position = Inr dec" for dec
    using approach_position_frame [OF assms _ _ cmd c2, of axis reverse position dec] that
    by simp
  show ?thesis using table any full by blast
qed

lemma float_to_dec_bytes_minus_100_fin:
  "float_to_dec_bytes (Fin True 100 0) = Inr [0, 0, 200, 194]"
proof -
  have "float32_bits (Fin True 100 0) = Inr 0xc2c80000"
    by (simp add: bit_length_100 round_shift_def sign_bit_def)
  then have "float_to_dec_bytes (Fin True 100 0)
      = Inr (map (\<lambda>b. int (unat b)) (rev (be_bytes 0xc2c80000)))"
    by (rule float_to_dec_bytes_bits)
  then show ?thesis by (simp add: be_bytes_def)
qed

theorem approach_position_opcode_witness:
  "ser (init 0 False False (Some \<lparr>written = [], incoming = [6, 0, 0, 0, 0]\<rparr>))
     = Some \<lparr>written = [], incoming = [6, 0, 0, 0, 0]\<rparr>
   \<and> ser (snd (approach_position
                 (init 0 False False (Some \<lparr>written = [], incoming = [6, 0, 0, 0, 0]\<rparr>))
                 15 (Fin True 100 0) False True False))
       = Some \<lparr>written = [0x16, 0x00, 0x4b, 5, 15, 0, 0, 200, 194, 0, 0], incoming = []\<rparr>"
proof -
  let ?port = "\<lparr>written = [], incoming = [6, 0, 0, 0, 0 :: byte]\<rparr>"
  let ?d = "init 0 False False (Some ?port)"
  have h: "ser ?d = Some ?port" by (rule init_connected)
  obtain opcode where table: "\<not> False \<and> True \<longrightarrow> opcode = (0x4b :: byte)"
    and full: "\<And>dec. 0 \<le> (15 :: int) \<and> (15 :: int) \<le> 255
                  \<and> float_to_dec_bytes (if False then neg (Fin True 100 0) else Fin True 100 0) = Inr dec
                \<Longrightarrow> ser (snd (approach_position ?d 15 (Fin True 100 0) False True False))
                      = Some \<lparr>written = written ?port @ [0x16, 0x00, opcode]
                                         @ [5, word_of_int 15] @ map word_of_int dec @ [0, 0],
                              incoming = drop 5 (incoming ?port)\<rparr>"
    using approach_position_opcode [OF h, of False True 15 "Fin True 100 0" False] by blast
  have "ser (snd (approach_position ?d 15 (Fin True 100 0) False True False))
      = Some \<lparr>written = written ?port @ [0x16, 0x00, opcode]
                  @ [5, word_of_int 15] @ map word_of_int [0, 0, 200, 194] @ [0, 0],
              incoming = drop 5 (incoming ?port)\<rparr>"
    by (rule full) (simp add: float_to_dec_bytes_minus_100_fin)
  then show ?thesis using table h by simp
qed





section \<open>A driver without a port\<close>

lemma init_disconnected_fields:
  "ser (init v sd lo None) = None" "connected (init v sd lo None) = False"
  by (simp_all add: init_def Let_def write_log_def)

lemma send_command_no_port:
  assumes "ser d = None"
  shows "send_command d cmd_id n p r =
     (if n \<noteq> int (length p) then
        (Inr None,
         if serial_debug d then
           write_log d [LText (CHR 0x09 # ''(Error in serial command: attempting to read ''),
                        LInt n, LText '' byte(s) but '', LInt (int (length p)),
                        LText '' is(were) sent)'']
         else d)
      else case unhexlify (char_command cmd_id n p) of
             Inl e \<Rightarrow> (Inl e, d)
           | Inr frame \<Rightarrow> (Inl AttributeError, d))"
  using assms by (simp add: send_command_def split: sum.splits)

lemma send_command_no_port_ser:
  assumes "ser d = None"
  shows "ser (snd (send_command d cmd_id n p r)) = None"
  using assms by (simp add: send_command_no_port split: sum.splits)

lemma send_command_no_port_axis:
  assumes "ser d = None" and "unhexlify cmd_id = Inr c" and "0 \<le> axis" and "axis \<le> 255"
  shows "send_command d cmd_id 1 [axis] r = (Inl AttributeError, d)"
proof -
  have "unhexlify (char_command cmd_id (int (length [axis])) [axis]) = Inr (spec_frame c [axis])"
    using assms(2-4) by (intro unhexlify_char_command) simp_all
  then show ?thesis using assms(1) by (simp add: send_command_no_port)
qed

lemma char_command_ascii_iff:
  "list_all is_ascii (char_command cmd_id n p) = list_all is_ascii cmd_id"
proof
  assume "list_all is_ascii (char_command cmd_id n p)"
  then show "list_all is_ascii cmd_id" by (simp add: char_command_concat)
next
  assume "list_all is_ascii cmd_id"
  then show "list_all is_ascii (char_command cmd_id n p)" by (rule char_command_ascii)
qed

lemma ascii_e9: "\<not> list_all is_ascii (CHR 0xE9 # ''101'')"
  by (simp add: is_ascii_def)

text \<open>
  Claim C8, as amended. When the port cannot be opened, the constructor still returns a
  driver, with \<^verbatim>\<open>connected\<close> false and \<^verbatim>\<open>ser\<close> set to \<^verbatim>\<open>None\<close>. On that driver
  \<^verbatim>\<open>send_command\<close> never has a port to write to or read from. It returns \<^verbatim>\<open>None\<close>
  when the declared count is wrong; else it raises \<^verbatim>\<open>ValueError\<close> when the command id
  has a character that is not ASCII; else \<^verbatim>\<open>binascii.Error\<close> when the text of the
  command has an odd length or a character that is no hexadecimal digit; and otherwise
  \<^verbatim>\<open>AttributeError\<close> at \<^verbatim>\<open>self.ser.write\<close>. \<^verbatim>\<open>position_inquiry\<close>,
  \<^verbatim>\<open>axis_status\<close> and \<^verbatim>\<open>axis_switch\<close> with an axis in 0..255 raise that
  \<^verbatim>\<open>AttributeError\<close>.
\<close>

theorem disconnected_driver:
  assumes "d = init verbose_arg serial_debug_arg log_opens None"
  shows "connected d = False \<and> ser d = None
         \<and> ser (snd (send_command d cmd_id n p r)) = None
         \<and> fst (send_command d cmd_id n p r) =
             (if n \<noteq> int (length p) then Inr None
              else if \<not> list_all is_ascii cmd_id then Inl ValueError
              else if odd (length (char_command cmd_id n p))
                      \<or> \<not> list_all (\<lambda>c. hex_value c \<noteq> None) (char_command cmd_id n p)
                   then Inl BinasciiError
              else Inl AttributeError)
         \<and> (0 \<le> axis \<and> axis \<le> 255 \<longrightarrow>
              fst (position_inquiry native d axis) = Inl AttributeError
              \<and> fst (axis_status d axis) = Inl AttributeError
              \<and> fst (axis_switch d axis switch_on) = Inl AttributeError
              \<and> ser (snd (position_inquiry native d axis)) = None
              \<and> ser (snd (axis_status d axis)) = None
              \<and> ser (snd (axis_switch d axis switch_on)) = None)"
proof (intro conjI impI)
  have none: "ser d = None" using assms by (simp only: init_disconnected_fields)
  show "connected d = False" using assms by (simp only: init_disconnected_fields)
  show "ser d = None" by (rule none)
  show "ser (snd (send_command d cmd_id n p r)) = None"
    using none by (rule send_command_no_port_ser)
  show "fst (send_command d cmd_id n p r) =
             (if n \<noteq> int (length p) then Inr None
              else if \<not> list_all is_ascii cmd_id then Inl ValueError
              else if odd (length (char_command cmd_id n p))
                      \<or> \<not> list_all (\<lambda>c. hex_value c \<noteq> None) (char_command cmd_id n p)
                   then Inl BinasciiError
              else Inl AttributeError)"
  proof (cases "n = int (length p)")
    case False
    then show ?thesis using none by (simp add: send_command_no_port)
  next
    case True
    let ?text = "char_command cmd_id n p"
    have sc: "fst (send_command d cmd_id n p r)
        = (case unhexlify ?text of Inl e \<Rightarrow> Inl e | Inr frame \<Rightarrow> Inl AttributeError)"
      using none True by (simp add: send_command_no_port split: sum.splits)
    have outcome: "unhexlify ?text =
       (if \<not> list_all is_ascii cmd_id then Inl ValueError
        else if odd (length ?text) \<or> \<not> list_all (\<lambda>c. hex_value c \<noteq> None) ?text
             then Inl BinasciiError
        else unhexlify_ascii ?text)"
      using unhexlify_cases [of ?text] by (simp only: char_command_ascii_iff)
    have bytes: "\<exists>bs. unhexlify_ascii ?text = Inr bs"
      if "list_all is_ascii cmd_id" "even (length ?text)"
        "list_all (\<lambda>c. hex_value c \<noteq> None) ?text"
      using unhexlify_cases [of ?text] that by (simp only: char_command_ascii_iff)
    have inner: "fst (send_command d cmd_id n p r) =
       (if \<not> list_all is_ascii cmd_id then Inl ValueError
        else if odd (length ?text) \<or> \<not> list_all (\<lambda>c. hex_value c \<noteq> None) ?text
             then Inl BinasciiError
        else Inl AttributeError)"
    proof (cases "list_all is_ascii cmd_id \<and> even (length ?text)
        \<and> list_all (\<lambda>c. hex_value c \<noteq> None) ?text")
      case False
      then show ?thesis unfolding sc outcome by auto
    next
      case wellformed: True
      then obtain bs where bs: "unhexlify_ascii ?text = Inr bs" using bytes by blast
      show ?thesis unfolding sc outcome using wellformed bs by simp
    qed
    show ?thesis unfolding inner using True by simp
  qed
  assume axis: "0 \<le> axis \<and> axis \<le> 255"
  let ?d1 = "write_log d [LText ''Query axis '', LInt axis, LText '' position ...'']"
  have none1: "ser ?d1 = None" using none by simp
  have pi: "send_command ?d1 ''0101'' 1 [axis] 10 = (Inl AttributeError, ?d1)"
    using none1 unhexlify_0101 axis by (intro send_command_no_port_axis) simp_all
  have st: "send_command d ''011e'' 1 [axis] 7 = (Inl AttributeError, d)"
    using none axis by (intro send_command_no_port_axis [where c = "[0x01, 0x1e]"])
      (simp_all add: hex_value_def)
  have sw: "send_command d (if \<not> switch_on then ''0034'' else ''0035'') 1 [axis] 5
      = (Inl AttributeError, d)"
    using none axis
    by (intro send_command_no_port_axis [where c = "if \<not> switch_on then [0x00, 0x34] else [0x00, 0x35]"])
      (simp_all add: hex_value_def)
  show "fst (position_inquiry native d axis) = Inl AttributeError"
    by (simp add: position_inquiry_def Let_def pi)
  show "ser (snd (position_inquiry native d axis)) = None"
    using none by (simp add: position_inquiry_def Let_def pi)
  show "fst (axis_status d axis) = Inl AttributeError"
    by (simp add: axis_status_def st)
  show "ser (snd (axis_status d axis)) = None"
    using none by (simp add: axis_status_def st)
  show "fst (axis_switch d axis switch_on) = Inl AttributeError"
    using sw by (simp add: axis_switch_def split: if_splits)
  show "ser (snd (axis_switch d axis switch_on)) = None"
    using sw none by (simp add: axis_switch_def split: if_splits)
qed

theorem disconnected_driver_witness:
  "connected (init 1 True False None) = False \<and> ser (init 1 True False None) = None
   \<and> fst (send_command (init 1 True False None) ''0101'' 1 [15] 10) = Inl AttributeError
   \<and> ser (snd (send_command (init 1 True False None) ''0101'' 1 [15] 10)) = None
   \<and> (0 :: int) \<le> 15 \<and> (15 :: int) \<le> 255
   \<and> fst (position_inquiry LittleEndian (init 1 True False None) 15) = Inl AttributeError
   \<and> fst (axis_status (init 1 True False None) 15) = Inl AttributeError
   \<and> fst (axis_switch (init 1 True False None) 15 True) = Inl AttributeError
   \<and> fst (send_command (init 1 True False None) (CHR 0xE9 # ''101'') 1 [15] 10) = Inl ValueError"
proof -
  have frame: "unhexlify (char_command ''0101'' 1 [15]) = Inr [0x16, 1, 1, 1, word_of_int 15, 0, 0]"
    by (rule unhexlify_position_inquiry) simp_all
  have digits: "even (length (char_command ''0101'' 1 [15]))"
    "list_all (\<lambda>c. hex_value c \<noteq> None) (char_command ''0101'' 1 [15])"
    using unhexlify_length [OF frame] unhexlify_cases [of "char_command ''0101'' 1 [15]"] frame
    by (auto split: if_splits)
  have a: "connected (init 1 True False None) = False \<and> ser (init 1 True False None) = None
   \<and> fst (send_command (init 1 True False None) ''0101'' 1 [15] 10) = Inl AttributeError
   \<and> ser (snd (send_command (init 1 True False None) ''0101'' 1 [15] 10)) = None
   \<and> fst (position_inquiry LittleEndian (init 1 True False None) 15) = Inl AttributeError
   \<and> fst (axis_status (init 1 True False None) 15) = Inl AttributeError
   \<and> fst (axis_switch (init 1 True False None) 15 True) = Inl AttributeError"
    using disconnected_driver [OF refl, of 1 True False "''0101''" 1 "[15]" 10 15 LittleEndian True]
      digits ascii_0101
    by simp
  have b: "fst (send_command (init 1 True False None) (CHR 0xE9 # ''101'') 1 [15] 10)
      = Inl ValueError"
    using disconnected_driver [OF refl, of 1 True False "CHR 0xE9 # ''101''" 1 "[15]" 10]
      ascii_e9
    by simp
  show ?thesis using a b by simp
qed

text \<open>
  Claim C8 as stated asks every call on a driver without a port to fail with one error for
  the missing connection: a call with a wrong count returns \<^verbatim>\<open>None\<close> and changes
  nothing, a call with the byte 256 raises \<^verbatim>\<open>binascii.Error\<close>, and a well-formed call
  raises \<^verbatim>\<open>AttributeError\<close>.
\<close>

theorem disconnected_driver_counterexample:
  "fst (send_command (init 0 False False None) ''0101'' 2 [15] 10) = Inr None
   \<and> snd (send_command (init 0 False False None) ''0101'' 2 [15] 10) = init 0 False False None
   \<and> fst (send_command (init 0 False False None) ''0101'' 1 [256] 10) = Inl BinasciiError
   \<and> fst (send_command (init 0 False False None) ''0101'' 1 [15] 10) = Inl AttributeError"
proof -
  have none: "ser (init 0 False False None) = None" by (rule init_disconnected_fields)
  have sd: "\<not> serial_debug (init 0 False False None)" by (simp add: init_def write_log_def)
  have a: "send_command (init 0 False False None) ''0101'' 2 [15] 10
      = (Inr None, init 0 False False None)"
    using sd by (simp add: send_command_no_port [OF none])
  have "odd (length (char_command ''0101'' 1 [256]))"
    by (simp add: char_command_length format_02x_256
        format_02x_byte [of 1, simplified])
  then have "unhexlify (char_command ''0101'' 1 [256]) = Inl BinasciiError"
    using char_command_ascii [OF ascii_0101] by (rule unhexlify_odd)
  then have b: "fst (send_command (init 0 False False None) ''0101'' 1 [256] 10) = Inl BinasciiError"
    by (simp add: send_command_no_port [OF none])
  have c: "fst (send_command (init 0 False False None) ''0101'' 1 [15] 10) = Inl AttributeError"
    using send_command_no_port_axis [OF none unhexlify_0101, of 15 10] by simp
  show ?thesis using a b c by simp
qed

section \<open>Parameter values above 255\<close>

lemma length_to_hex_pos: "0 < length (to_hex n)"
  by (subst to_hex.simps) simp

lemma length_to_hex_256:
  assumes "256 \<le> n"
  shows "3 \<le> length (to_hex n)"
proof -
  have a: "to_hex n = to_hex (n div 16) @ [hex_digit (n mod 16)]"
    using assms by (subst to_hex.simps) simp
  have "16 \<le> n div 16" using assms by simp
  then have b: "to_hex (n div 16) = to_hex (n div 16 div 16) @ [hex_digit (n div 16 mod 16)]"
    by (subst to_hex.simps) simp
  have "length (to_hex n) = length (to_hex (n div 16 div 16)) + 2" by (simp add: a b)
  then show ?thesis using length_to_hex_pos [of "n div 16 div 16"] by linarith
qed

lemma format_02x_digits:
  assumes "0 \<le> b" and "c \<in> set (format_02x b)"
  shows "hex_value c \<noteq> None"
proof -
  have "c = CHR ''0'' \<or> c \<in> set (to_hex (nat b))"
    using assms by (auto simp: format_02x_def Let_def)
  moreover have "hex_value CHR ''0'' \<noteq> None" by (simp add: hex_value_def)
  ultimately show ?thesis using to_hex_digits by blast
qed

lemma length_format_02x:
  assumes "0 \<le> b"
  shows "2 \<le> length (format_02x b)"
  using assms by (simp add: format_02x_def Let_def)

lemma length_format_02x_wide:
  assumes "255 < b"
  shows "3 \<le> length (format_02x b)"
proof -
  have "256 \<le> nat b" using assms by simp
  then have "3 \<le> length (to_hex (nat b))" by (rule length_to_hex_256)
  then show ?thesis using assms by (simp add: format_02x_def Let_def)
qed

lemma params_digits:
  assumes "\<forall>b\<in>set p. 0 \<le> b" and "c \<in> set (concat (map format_02x p))"
  shows "hex_value c \<noteq> None"
  using assms format_02x_digits by auto

lemma length_params:
  assumes "\<forall>b\<in>set p. 0 \<le> b"
  shows "2 * length p \<le> length (concat (map format_02x p))"
  using assms
proof (induction p)
  case Nil
  then show ?case by simp
next
  case (Cons b p)
  then show ?case using length_format_02x [of b] by simp
qed

lemma length_params_wide:
  assumes "\<forall>b\<in>set p. 0 \<le> b" and "\<exists>b\<in>set p. 255 < b"
  shows "2 * length p < length (concat (map format_02x p))"
  using assms
proof (induction p)
  case Nil
  then show ?case by simp
next
  case (Cons b p)
  show ?case
  proof (cases "255 < b")
    case True
    have "2 * length p \<le> length (concat (map format_02x p))"
      using Cons.prems(1) by (intro length_params) simp
    then show ?thesis using length_format_02x_wide [OF True] by simp
  next
    case False
    then have "\<exists>b\<in>set p. 255 < b" using Cons.prems(2) by simp
    then have "2 * length p < length (concat (map format_02x p))"
      using Cons.prems(1) by (intro Cons.IH) simp_all
    moreover have "2 \<le> length (format_02x b)"
      using Cons.prems(1) by (intro length_format_02x) simp
    ultimately show ?thesis by simp
  qed
qed

lemma unhexlify_char_command_tail:
  assumes c: "unhexlify cmd_id = Inr c"
    and len: "length p \<le> 255"
    and tail: "unhexlify (concat (map format_02x p) @ ''0000'') = Inr rest"
  shows "unhexlify (char_command cmd_id (int (length p)) p)
         = Inr ([0x16] @ c @ of_nat (length p) # rest)"
proof -
  have n: "0 \<le> int (length p)" "int (length p) \<le> 255" using len by simp_all
  have count: "unhexlify (format_02x (int (length p)) @ concat (map format_02x p) @ ''0000'')
      = Inr (of_nat (length p) # rest)"
    using unhexlify_format_02x [OF n] by (simp only: tail sum.case of_int_of_nat_eq)
  have cmd: "unhexlify (cmd_id @ format_02x (int (length p)) @ concat (map format_02x p) @ ''0000'')
      = Inr (c @ of_nat (length p) # rest)"
    using unhexlify_append [OF c] by (simp only: count sum.case)
  have "unhexlify (''16'' @ cmd_id @ format_02x (int (length p)) @ concat (map format_02x p) @ ''0000'')
      = Inr ([0x16] @ c @ of_nat (length p) # rest)"
    using unhexlify_append [OF unhexlify_syn] by (simp only: cmd sum.case)
  then show ?thesis by (simp only: char_command_concat)
qed

text \<open>
  Claim C10, as amended. \<^verbatim>\<open>send_command\<close> checks no range. Let every element of
  \<^verbatim>\<open>var_bytes\<close> be non-negative and one of them be above 255, with a command id of four
  hexadecimal digits and a matching count of at most 255. When the elements print to an
  odd number of hexadecimal digits (the axis 256 prints as \<open>100\<close>),
  \<^verbatim>\<open>unhexlify\<close> raises \<^verbatim>\<open>binascii.Error\<close> and nothing is written. When they print
  to an even number (the axis 4096 prints as \<open>1000\<close>), no error is raised and the frame
  written is longer than \<open>6 + len(var_bytes)\<close>, while its byte at index 3 is still the
  declared count.
\<close>

theorem send_command_wide_parameter:
  assumes "ser d = Some port"
    and "unhexlify cmd_id = Inr c" and "length c = 2"
    and "length p \<le> 255"
    and "\<forall>b\<in>set p. 0 \<le> b" and "\<exists>b\<in>set p. 255 < b"
  shows "(odd (length (concat (map format_02x p))) \<longrightarrow>
           send_command d cmd_id (int (length p)) p r = (Inl BinasciiError, d))
         \<and> (even (length (concat (map format_02x p))) \<longrightarrow>
              (\<exists>frame. fst (send_command d cmd_id (int (length p)) p r)
                          = Inr (Some (take r (incoming port)))
                 \<and> ser (snd (send_command d cmd_id (int (length p)) p r))
                     = Some \<lparr>written = written port @ frame, incoming = drop r (incoming port)\<rparr>
                 \<and> 6 + length p < length frame
                 \<and> 2 * length frame = 12 + length (concat (map format_02x p))
                 \<and> unat (frame ! 3) = length p))"
proof (intro conjI impI)
  let ?body = "concat (map format_02x p)"
  have cmd_len: "length cmd_id = 4" using unhexlify_length [OF assms(2)] assms(3) by simp
  have n: "0 \<le> int (length p)" "int (length p) \<le> 255" using assms(4) by simp_all
  have count_len: "length (format_02x (int (length p))) = 2"
    by (simp add: format_02x_byte [OF n])
  have total: "length (char_command cmd_id (int (length p)) p) = 12 + length ?body"
    by (simp add: char_command_length cmd_len count_len)
  show "send_command d cmd_id (int (length p)) p r = (Inl BinasciiError, d)"
    if "odd (length ?body)"
  proof -
    have "odd (length (char_command cmd_id (int (length p)) p))" using that total by simp
    moreover have "list_all is_ascii (char_command cmd_id (int (length p)) p)"
      using unhexlify_Inr_ascii [OF assms(2)] by (rule char_command_ascii)
    ultimately have "unhexlify (char_command cmd_id (int (length p)) p) = Inl BinasciiError"
      by (rule unhexlify_odd)
    then show ?thesis by (simp add: send_command_def)
  qed
  show "\<exists>frame. fst (send_command d cmd_id (int (length p)) p r)
                          = Inr (Some (take r (incoming port)))
                 \<and> ser (snd (send_command d cmd_id (int (length p)) p r))
                     = Some \<lparr>written = written port @ frame, incoming = drop r (incoming port)\<rparr>
                 \<and> 6 + length p < length frame
                 \<and> 2 * length frame = 12 + length ?body
                 \<and> unat (frame ! 3) = length p"
    if "even (length ?body)"
  proof -
    have "\<forall>ch\<in>set (?body @ ''0000''). hex_value ch \<noteq> None"
      using params_digits [OF assms(5)] by (auto simp: hex_value_def)
    moreover have "even (length (?body @ ''0000''))" using that by simp
    ultimately obtain rest where rest: "unhexlify (?body @ ''0000'') = Inr rest"
      using unhexlify_digits by blast
    let ?frame = "[0x16] @ c @ of_nat (length p) # rest"
    have frame: "unhexlify (char_command cmd_id (int (length p)) p) = Inr ?frame"
      using assms(2,4) rest by (rule unhexlify_char_command_tail)
    have twice: "2 * length ?frame = 12 + length ?body"
      using unhexlify_length [OF frame] total by simp
    have "2 * length p < length ?body" using assms(5,6) by (rule length_params_wide)
    then have longer: "6 + length p < length ?frame" using twice by linarith
    have "?frame ! 3 = of_nat (length p)" using assms(3) by (simp add: nth_append)
    then have count: "unat (?frame ! 3) = length p" using assms(4) by (simp only: unat_count)
    have "fst (send_command d cmd_id (int (length p)) p r) = Inr (Some (take r (incoming port)))"
      using assms(1) frame by (rule send_command_connected(1)) simp
    moreover have "ser (snd (send_command d cmd_id (int (length p)) p r))
        = Some \<lparr>written = written port @ ?frame, incoming = drop r (incoming port)\<rparr>"
      using assms(1) frame by (rule send_command_connected(2)) simp
    ultimately show ?thesis using longer twice count by blast
  qed
qed

lemma format_02x_4096: "format_02x 4096 = ''1000''"
  by (simp add: format_02x_def to_hex.simps hex_digit_def)

theorem send_command_wide_parameter_witness:
  "ser (init 0 False False (Some \<lparr>written = [], incoming = []\<rparr>))
     = Some \<lparr>written = [], incoming = []\<rparr>
   \<and> unhexlify ''0101'' = Inr [1, 1] \<and> length [1 :: byte, 1] = 2
   \<and> length [4096 :: int] \<le> 255 \<and> (0 :: int) \<le> 4096 \<and> (255 :: int) < 4096
   \<and> even (length (concat (map format_02x [4096])))
   \<and> (\<exists>frame. ser (snd (send_command (init 0 False False (Some \<lparr>written = [], incoming = []\<rparr>))
                            ''0101'' 1 [4096] 10))
                 = Some \<lparr>written = [] @ frame, incoming = []\<rparr>
        \<and> 6 + length [4096 :: int] < length frame
        \<and> unat (frame ! 3) = length [4096 :: int])
   \<and> odd (length (concat (map format_02x [256])))
   \<and> send_command (init 0 False False (Some \<lparr>written = [], incoming = []\<rparr>)) ''0101'' 1 [256] 10
       = (Inl BinasciiError, init 0 False False (Some \<lparr>written = [], incoming = []\<rparr>))"
proof -
  let ?port = "\<lparr>written = [], incoming = [] :: byte list\<rparr>"
  let ?d = "init 0 False False (Some ?port)"
  have h1: "ser ?d = Some ?port" by (rule init_connected)
  have h3: "length [1 :: byte, 1] = 2" by simp
  have h4: "length [4096 :: int] \<le> 255" by simp
  have h5: "\<forall>b\<in>set [4096 :: int]. 0 \<le> b" by simp
  have h6: "\<exists>b\<in>set [4096 :: int]. 255 < b" by simp
  have g4: "length [256 :: int] \<le> 255" by simp
  have g5: "\<forall>b\<in>set [256 :: int]. 0 \<le> b" by simp
  have g6: "\<exists>b\<in>set [256 :: int]. 255 < b" by simp
  have e: "even (length (concat (map format_02x [4096])))" by (simp add: format_02x_4096)
  have o: "odd (length (concat (map format_02x [256])))" by (simp add: format_02x_256)
  show ?thesis
    using send_command_wide_parameter [OF h1 unhexlify_0101 h3 h4 h5 h6, of 10]
      send_command_wide_parameter [OF h1 unhexlify_0101 h3 g4 g5 g6, of 10]
      h1 unhexlify_0101 e o
    by auto
qed

text \<open>
  Claim C10 as stated gives the axis 256 as its example of a frame that is sent too
  long: with it \<^verbatim>\<open>send_command\<close>, and \<^verbatim>\<open>position_inquiry\<close> through it, raise
  \<^verbatim>\<open>binascii.Error\<close>, and the port has received nothing.
\<close>

theorem send_command_wide_parameter_counterexample:
  "fst (send_command (init 0 False False (Some \<lparr>written = [], incoming = [6, 1, 1]\<rparr>))
          ''0101'' 1 [256] 10) = Inl BinasciiError
   \<and> ser (snd (send_command (init 0 False False (Some \<lparr>written = [], incoming = [6, 1, 1]\<rparr>))
                 ''0101'' 1 [256] 10))
       = Some \<lparr>written = [], incoming = [6, 1, 1]\<rparr>
   \<and> fst (position_inquiry LittleEndian
            (init 0 False False (Some \<lparr>written = [], incoming = [6, 1, 1]\<rparr>)) 256)
       = Inl BinasciiError"
proof -
  let ?port = "\<lparr>written = [], incoming = [6, 1, 1 :: byte]\<rparr>"
  let ?d = "init 0 False False (Some ?port)"
  have "odd (length (char_command ''0101'' 1 [256]))"
    by (simp add: char_command_length format_02x_256 format_02x_byte [of 1, simplified])
  then have err: "unhexlify (char_command ''0101'' 1 [256]) = Inl BinasciiError"
    using char_command_ascii [OF ascii_0101] by (rule unhexlify_odd)
  have a: "send_command d ''0101'' 1 [256] 10 = (Inl BinasciiError, d)" for d
    using err by (simp add: send_command_def)
  have "fst (position_inquiry LittleEndian ?d 256) = Inl BinasciiError"
    by (simp add: position_inquiry_def Let_def a)
  then show ?thesis by (simp add: a init_connected)
qed

end
